theory Spec2Isabelle
  imports Complex_Main "HOL-Library.Multiset"
begin

section \<open>JavaScript numbers\<close>

text \<open>
  The functions of \<^verbatim>\<open>script.js\<close> compute on JavaScript numbers, which are IEEE 754
  doubles. A number is modelled as a real number, one of the two infinities, or \<open>NaN\<close>.
  There is a single zero, which behaves as \<open>+0\<close>.
\<close>

datatype jsnum = NaN | NegInf | Fin real | PosInf

fun js_neg :: "jsnum \<Rightarrow> jsnum" where
  "js_neg NaN = NaN"
| "js_neg NegInf = PosInf"
| "js_neg (Fin x) = Fin (- x)"
| "js_neg PosInf = NegInf"

text \<open>\<^verbatim>\<open>a <= b\<close> and \<^verbatim>\<open>a < b\<close>: false as soon as one side is \<open>NaN\<close>.\<close>

fun js_le :: "jsnum \<Rightarrow> jsnum \<Rightarrow> bool" where
  "js_le NaN _ = False"
| "js_le _ NaN = False"
| "js_le NegInf _ = True"
| "js_le _ PosInf = True"
| "js_le (Fin x) (Fin y) = (x \<le> y)"
| "js_le _ _ = False"

fun js_lt :: "jsnum \<Rightarrow> jsnum \<Rightarrow> bool" where
  "js_lt NaN _ = False"
| "js_lt _ NaN = False"
| "js_lt (Fin x) (Fin y) = (x < y)"
| "js_lt NegInf NegInf = False"
| "js_lt PosInf PosInf = False"
| "js_lt NegInf _ = True"
| "js_lt _ PosInf = True"
| "js_lt _ _ = False"

text \<open>\<^verbatim>\<open>a == b\<close> on numbers: \<open>NaN\<close> is not equal to itself.\<close>

definition js_eq :: "jsnum \<Rightarrow> jsnum \<Rightarrow> bool" where
  "js_eq a b = (a \<noteq> NaN \<and> a = b)"

text \<open>The sign of a number: \<open>1\<close>, \<open>-1\<close>, or \<open>0\<close> for zero and for \<open>NaN\<close>.\<close>

fun js_sign :: "jsnum \<Rightarrow> int" where
  "js_sign NaN = 0"
| "js_sign NegInf = - 1"
| "js_sign (Fin x) = (if 0 < x then 1 else if x < 0 then - 1 else 0)"
| "js_sign PosInf = 1"

subsection \<open>The arithmetic of the machine\<close>

text \<open>
  The result of an operation on finite numbers is the exact real result rounded to a
  double, and the functions of \<^verbatim>\<open>Math\<close> are approximations that ECMAScript leaves to the
  implementation. Neither is fixed here. The operations of the machine are parameters:
  the rounding of an exact result (to a finite double, or to an infinity on overflow),
  the values of \<^verbatim>\<open>Math.sin\<close>, \<^verbatim>\<open>Math.cos\<close>, \<^verbatim>\<open>Math.sqrt\<close> and \<^verbatim>\<open>Math.atan2\<close> on finite
  arguments, and the double \<^verbatim>\<open>Math.PI\<close>.
\<close>

record machine_ops =
  round_op :: "real \<Rightarrow> jsnum"
  sin_op :: "real \<Rightarrow> real"
  cos_op :: "real \<Rightarrow> real"
  sqrt_op :: "real \<Rightarrow> real"
  atan2_op :: "real \<Rightarrow> real \<Rightarrow> real"
  pi_op :: real

text \<open>
  What is required of the operations, all of it true of binary64 arithmetic in
  round-to-nearest and of the \<^verbatim>\<open>Math\<close> functions of the JavaScript engines:
  \<^item> rounding is monotone (so it is never \<open>NaN\<close>) and odd;
  \<^item> the integers up to \<open>2\<^sup>5\<^sup>3\<close> are doubles, and a double rounds to itself;
  \<^item> the difference of two different doubles does not round to zero (gradual underflow);
  \<^item> a result of \<open>2\<^sup>1\<^sup>0\<^sup>2\<^sup>4\<close> or more overflows to \<open>Infinity\<close>;
  \<^item> \<^verbatim>\<open>Math.sin\<close> is odd and \<open>sin 0 = 0\<close>; \<open>|cos x| \<le> 1\<close>;
  \<^item> \<^verbatim>\<open>Math.sqrt\<close> of a number \<open>\<ge> 0\<close> is \<open>\<ge> 0\<close>, \<open>sqrt 0 = 0\<close> and \<open>sqrt 1 = 1\<close>;
  \<^item> \<^verbatim>\<open>Math.atan2(y, x)\<close> is \<open>\<ge> 0\<close> for \<open>y \<ge> 0\<close>, at most 4 in absolute value, and
    \<open>atan2(0, x) = 0\<close> for \<open>x \<ge> 0\<close>;
  \<^item> \<^verbatim>\<open>Math.PI\<close> lies between 2 and 4.
\<close>

definition ieee :: "machine_ops \<Rightarrow> bool" where
  "ieee ops \<longleftrightarrow>
     (\<forall>x y. x \<le> y \<longrightarrow> js_le (round_op ops x) (round_op ops y)) \<and>
     (\<forall>x. round_op ops (- x) = js_neg (round_op ops x)) \<and>
     (\<forall>n::int. \<bar>n\<bar> \<le> 2 ^ 53 \<longrightarrow> round_op ops (of_int n) = Fin (of_int n)) \<and>
     (\<forall>x y. round_op ops x = Fin y \<longrightarrow> round_op ops y = Fin y) \<and>
     (\<forall>x y. round_op ops x = Fin x \<and> round_op ops y = Fin y \<and> x \<noteq> y
        \<longrightarrow> round_op ops (x - y) \<noteq> Fin 0) \<and>
     (\<forall>x. 2 ^ 1024 \<le> x \<longrightarrow> round_op ops x = PosInf) \<and>
     (\<forall>x. sin_op ops (- x) = - sin_op ops x) \<and>
     sin_op ops 0 = 0 \<and>
     (\<forall>x. \<bar>cos_op ops x\<bar> \<le> 1) \<and>
     (\<forall>x. 0 \<le> x \<longrightarrow> 0 \<le> sqrt_op ops x) \<and>
     sqrt_op ops 0 = 0 \<and>
     sqrt_op ops 1 = 1 \<and>
     (\<forall>y x. 0 \<le> y \<longrightarrow> 0 \<le> atan2_op ops y x) \<and>
     (\<forall>y x. \<bar>atan2_op ops y x\<bar> \<le> 4) \<and>
     (\<forall>x. 0 \<le> x \<longrightarrow> atan2_op ops 0 x = 0) \<and>
     2 \<le> pi_op ops \<and> pi_op ops \<le> 4"

text \<open>
  A machine is a set of operations with these properties. The type is not empty: the
  exact rounding below the overflow threshold, with the simplest functions that have the
  properties, is a machine.
\<close>

typedef machine = "{ops. ieee ops}"
proof
  have "\<bar>real_of_int n\<bar> < 2 ^ 1024" if "\<bar>n\<bar> \<le> 2 ^ 53" for n :: int
  proof -
    have "real_of_int \<bar>n\<bar> \<le> real_of_int (2 ^ 53)" using that by (simp only: of_int_le_iff)
    then have "\<bar>real_of_int n\<bar> \<le> 2 ^ 53" by simp
    also have "(2::real) ^ 53 < 2 ^ 1024" by simp
    finally show ?thesis .
  qed
  then show "\<lparr>round_op = (\<lambda>x. if \<bar>x\<bar> < 2 ^ 1024 then Fin x else if 0 < x then PosInf else NegInf),
      sin_op = (\<lambda>x. x), cos_op = (\<lambda>x. 0), sqrt_op = (\<lambda>x. x), atan2_op = (\<lambda>y x. 0),
      pi_op = 3\<rparr> \<in> {ops. ieee ops}"
    unfolding ieee_def mem_Collect_eq
    by (auto simp: abs_if split: if_splits)
qed

setup_lifting type_definition_machine

text \<open>
  The angle of the point \<open>(x, y)\<close> as a real number, in \<open>(-\<pi>, \<pi>]\<close>, and the
  machine that computes without rounding error: every result below the overflow
  threshold is exact, and the functions are the real ones.
\<close>

definition real_atan2 :: "real \<Rightarrow> real \<Rightarrow> real" where
  "real_atan2 y x =
     (if 0 < x then arctan (y / x)
      else if x < 0 then (if 0 \<le> y then arctan (y / x) + pi else arctan (y / x) - pi)
      else if 0 < y then pi / 2 else if y < 0 then - pi / 2 else 0)"

definition exact_ops :: machine_ops where
  "exact_ops =
     \<lparr>round_op = (\<lambda>x. if \<bar>x\<bar> < 2 ^ 1024 then Fin x else if 0 < x then PosInf else NegInf),
      sin_op = sin, cos_op = cos, sqrt_op = sqrt, atan2_op = real_atan2, pi_op = pi\<rparr>"

lift_definition exact :: machine is exact_ops
proof -
  have lo: "- (pi / 2) < arctan t" and hi: "arctan t < pi / 2" for t
    using arctan_bounded[of t] by simp_all
  have pos: "0 \<le> arctan (y / x)" if "(0 \<le> y \<and> 0 < x) \<or> (y \<le> 0 \<and> x < 0)" for y x
    using that by (auto simp: zero_le_arctan_iff zero_le_divide_iff)
  have neg: "arctan (y / x) \<le> 0" if "(0 \<le> y \<and> x < 0) \<or> (y \<le> 0 \<and> 0 < x)" for y x
    using that by (auto simp: arctan_le_zero_iff divide_le_0_iff)
  have a: "\<bar>real_atan2 y x\<bar> \<le> 4" for y x
  proof -
    consider "0 < x" | "x < 0" "0 \<le> y" | "x < 0" "y < 0" | "x = 0" by linarith
    then show ?thesis
    proof cases
      case 1
      then have e: "real_atan2 y x = arctan (y / x)" by (simp add: real_atan2_def)
      show ?thesis unfolding e abs_le_iff
        using lo[of "y / x"] hi[of "y / x"] pi_less_4 by linarith
    next
      case 2
      then have e: "real_atan2 y x = arctan (y / x) + pi" by (simp add: real_atan2_def)
      have "arctan (y / x) \<le> 0" using neg 2 by blast
      then show ?thesis unfolding e abs_le_iff
        using lo[of "y / x"] pi_less_4 by linarith
    next
      case 3
      then have e: "real_atan2 y x = arctan (y / x) - pi" by (simp add: real_atan2_def)
      have "0 \<le> arctan (y / x)" using pos[of y x] 3 by simp
      then show ?thesis unfolding e abs_le_iff
        using hi[of "y / x"] pi_less_4 by linarith
    next
      case 4
      have "\<bar>pi / 2\<bar> \<le> 4" using pi_less_4 pi_gt_zero by simp
      then show ?thesis using 4 by (simp add: real_atan2_def)
    qed
  qed
  have b: "0 \<le> real_atan2 y x" if "0 \<le> y" for y x
  proof -
    consider "0 < x" | "x < 0" | "x = 0" by linarith
    then show ?thesis
    proof cases
      case 1
      then have e: "real_atan2 y x = arctan (y / x)" by (simp add: real_atan2_def)
      have "0 \<le> arctan (y / x)" using pos that 1 by blast
      then show ?thesis unfolding e .
    next
      case 2
      then have e: "real_atan2 y x = arctan (y / x) + pi" using that by (simp add: real_atan2_def)
      show ?thesis unfolding e using lo[of "y / x"] pi_gt_zero by linarith
    next
      case 3
      then show ?thesis using that pi_gt_zero by (simp add: real_atan2_def)
    qed
  qed
  have c: "real_atan2 0 x = 0" if "0 \<le> x" for x
    using that by (simp add: real_atan2_def)
  have d: "\<bar>real_of_int n\<bar> < 2 ^ 1024" if "\<bar>n\<bar> \<le> 2 ^ 53" for n :: int
  proof -
    have "real_of_int \<bar>n\<bar> \<le> real_of_int (2 ^ 53)" using that by (simp only: of_int_le_iff)
    then have "\<bar>real_of_int n\<bar> \<le> 2 ^ 53" by simp
    also have "(2::real) ^ 53 < 2 ^ 1024" by simp
    finally show ?thesis .
  qed
  show "ieee exact_ops"
    unfolding ieee_def exact_ops_def
    using a b c d pi_ge_two pi_less_4
    by (auto simp: abs_if split: if_splits)
qed

text \<open>The operations of a machine.\<close>

definition rnd :: "machine \<Rightarrow> real \<Rightarrow> jsnum" where
  "rnd m = round_op (Rep_machine m)"

definition msin :: "machine \<Rightarrow> real \<Rightarrow> real" where
  "msin m = sin_op (Rep_machine m)"

definition mcos :: "machine \<Rightarrow> real \<Rightarrow> real" where
  "mcos m = cos_op (Rep_machine m)"

definition msqrt :: "machine \<Rightarrow> real \<Rightarrow> real" where
  "msqrt m = sqrt_op (Rep_machine m)"

definition matan2 :: "machine \<Rightarrow> real \<Rightarrow> real \<Rightarrow> real" where
  "matan2 m = atan2_op (Rep_machine m)"

definition mpi :: "machine \<Rightarrow> real" where
  "mpi m = pi_op (Rep_machine m)"

subsection \<open>The arithmetic operators\<close>

text \<open>
  On finite numbers an operator rounds the exact result. The special values follow the
  IEEE 754 rules of ECMAScript: \<open>Infinity - Infinity\<close> and \<open>0 * Infinity\<close> are \<open>NaN\<close>, and
  \<open>NaN\<close> propagates. Changing the sign is exact.
\<close>

fun js_add :: "machine \<Rightarrow> jsnum \<Rightarrow> jsnum \<Rightarrow> jsnum" where
  "js_add m NaN _ = NaN"
| "js_add m _ NaN = NaN"
| "js_add m (Fin x) (Fin y) = rnd m (x + y)"
| "js_add m PosInf NegInf = NaN"
| "js_add m NegInf PosInf = NaN"
| "js_add m PosInf _ = PosInf"
| "js_add m NegInf _ = NegInf"
| "js_add m (Fin x) PosInf = PosInf"
| "js_add m (Fin x) NegInf = NegInf"

definition js_sub :: "machine \<Rightarrow> jsnum \<Rightarrow> jsnum \<Rightarrow> jsnum" where
  "js_sub m a b = js_add m a (js_neg b)"

fun js_mul :: "machine \<Rightarrow> jsnum \<Rightarrow> jsnum \<Rightarrow> jsnum" where
  "js_mul m NaN _ = NaN"
| "js_mul m _ NaN = NaN"
| "js_mul m (Fin x) (Fin y) = rnd m (x * y)"
| "js_mul m a b =
     (if js_sign a = 0 \<or> js_sign b = 0 then NaN
      else if js_sign a = js_sign b then PosInf else NegInf)"

text \<open>
  Division: a finite non-zero number divided by zero is an infinity of its own sign (the
  zero is \<open>+0\<close>), \<open>0 / 0\<close> and \<open>Infinity / Infinity\<close> are \<open>NaN\<close>, a finite number
  divided by an infinity is zero.
\<close>

fun js_div :: "machine \<Rightarrow> jsnum \<Rightarrow> jsnum \<Rightarrow> jsnum" where
  "js_div m NaN _ = NaN"
| "js_div m _ NaN = NaN"
| "js_div m (Fin x) (Fin y) =
     (if y \<noteq> 0 then rnd m (x / y)
      else if 0 < x then PosInf else if x < 0 then NegInf else NaN)"
| "js_div m (Fin x) _ = Fin 0"
| "js_div m a (Fin y) = (if (js_sign a = 1) = (0 \<le> y) then PosInf else NegInf)"
| "js_div m _ _ = NaN"

subsection \<open>The functions of \<^verbatim>\<open>Math\<close>\<close>

text \<open>
  On a finite argument the value is the machine's. At the infinities and at \<open>NaN\<close> the
  values are those ECMAScript fixes; where it asks for an approximation of a multiple of
  \<open>\<pi>\<close>, the multiple of \<^verbatim>\<open>Math.PI\<close> stands for it.
\<close>

definition Math_PI :: "machine \<Rightarrow> jsnum" where
  "Math_PI m = Fin (mpi m)"

fun Math_sin :: "machine \<Rightarrow> jsnum \<Rightarrow> jsnum" where
  "Math_sin m (Fin x) = Fin (msin m x)"
| "Math_sin m _ = NaN"

fun Math_cos :: "machine \<Rightarrow> jsnum \<Rightarrow> jsnum" where
  "Math_cos m (Fin x) = Fin (mcos m x)"
| "Math_cos m _ = NaN"

fun Math_sqrt :: "machine \<Rightarrow> jsnum \<Rightarrow> jsnum" where
  "Math_sqrt m (Fin x) = (if x < 0 then NaN else Fin (msqrt m x))"
| "Math_sqrt m PosInf = PosInf"
| "Math_sqrt m _ = NaN"

text \<open>\<^verbatim>\<open>Math.floor\<close> is exact: the integer below a double is a double.\<close>

fun Math_floor :: "jsnum \<Rightarrow> jsnum" where
  "Math_floor (Fin x) = Fin (of_int \<lfloor>x\<rfloor>)"
| "Math_floor a = a"

fun Math_atan2 :: "machine \<Rightarrow> jsnum \<Rightarrow> jsnum \<Rightarrow> jsnum" where
  "Math_atan2 m NaN _ = NaN"
| "Math_atan2 m _ NaN = NaN"
| "Math_atan2 m (Fin y) (Fin x) = Fin (matan2 m y x)"
| "Math_atan2 m (Fin y) PosInf = Fin 0"
| "Math_atan2 m (Fin y) NegInf = (if 0 \<le> y then Fin (mpi m) else Fin (- mpi m))"
| "Math_atan2 m PosInf (Fin x) = Fin (mpi m / 2)"
| "Math_atan2 m PosInf PosInf = Fin (mpi m / 4)"
| "Math_atan2 m PosInf NegInf = Fin (3 * mpi m / 4)"
| "Math_atan2 m NegInf (Fin x) = Fin (- mpi m / 2)"
| "Math_atan2 m NegInf PosInf = Fin (- mpi m / 4)"
| "Math_atan2 m NegInf NegInf = Fin (- 3 * mpi m / 4)"

section \<open>The great-circle distance\<close>

text \<open>
  \<^verbatim>\<open>calculateDistance(lat1, lon1, lat2, lon2)\<close>, the haversine formula with an Earth
  radius of 6371 km. The bindings follow the source line by line; \<^verbatim>\<open>x * Math.PI / 180\<close>
  is \<^verbatim>\<open>(x * Math.PI) / 180\<close>, and the product of four factors in \<open>a\<close> associates to the
  left. Every operator rounds and every function is the machine's, so the value is the
  one the program computes on that machine: where rounding takes \<open>a\<close> outside \<open>[0, 1]\<close>
  one of the square roots is \<open>NaN\<close>, and so is the distance.
\<close>

definition calculateDistance ::
  "machine \<Rightarrow> jsnum \<Rightarrow> jsnum \<Rightarrow> jsnum \<Rightarrow> jsnum \<Rightarrow> jsnum" where
  "calculateDistance m lat1 lon1 lat2 lon2 =
     (let R = Fin 6371;
          dLat = js_div m (js_mul m (js_sub m lat2 lat1) (Math_PI m)) (Fin 180);
          dLon = js_div m (js_mul m (js_sub m lon2 lon1) (Math_PI m)) (Fin 180);
          a = js_add m
                (js_mul m (Math_sin m (js_div m dLat (Fin 2)))
                          (Math_sin m (js_div m dLat (Fin 2))))
                (js_mul m
                  (js_mul m
                    (js_mul m (Math_cos m (js_div m (js_mul m lat1 (Math_PI m)) (Fin 180)))
                            (Math_cos m (js_div m (js_mul m lat2 (Math_PI m)) (Fin 180))))
                    (Math_sin m (js_div m dLon (Fin 2))))
                  (Math_sin m (js_div m dLon (Fin 2))));
          c = js_mul m (Fin 2) (Math_atan2 m (Math_sqrt m a) (Math_sqrt m (js_sub m (Fin 1) a)));
          distance = js_mul m R c
      in distance)"

section \<open>Points and clusters\<close>

text \<open>
  A point of the data source is an object \<^verbatim>\<open>{id, name, lat, lng, type, description}\<close>; the
  field \<open>ident\<close> is its \<^verbatim>\<open>id\<close> and \<open>kind\<close> its \<^verbatim>\<open>type\<close>. A search centre is an object
  with \<^verbatim>\<open>lat\<close> and \<^verbatim>\<open>lng\<close> only, so a point is a coordinate pair with more fields.
\<close>

record latlng =
  lat :: jsnum
  lng :: jsnum

record point = latlng +
  ident :: int
  name :: string
  kind :: string
  description :: string

text \<open>The value \<^verbatim>\<open>{ points: [], gridX, gridY }\<close> stored for each grid cell.\<close>

record cluster =
  points :: "point list"
  gridX :: jsnum
  gridY :: jsnum

text \<open>
  The errors a call can end with: \<open>InvalidArgument\<close> is the error the specification
  names; \<open>TypeError\<close> is what JavaScript throws on reading a property of \<^verbatim>\<open>undefined\<close>.
\<close>

datatype error = InvalidArgument | TypeError

subsection \<open>Numbers in a template literal\<close>

text \<open>
  The grid key is the template literal \<^verbatim>\<open>`${gridX},${gridY}`\<close>, which prints each number
  with \<^verbatim>\<open>Number::toString\<close>. The numbers printed are results of \<^verbatim>\<open>Math.floor\<close>:
  integers, infinities or \<open>NaN\<close>. An integer prints as its decimal digits, with a
  leading minus sign when negative. Digits after the decimal point are not modelled: on
  a finite number that is not an integer, \<open>js_toString\<close> prints the integer below it.
\<close>

definition digit_char :: "nat \<Rightarrow> char" where
  "digit_char d = ''0123456789'' ! d"

function string_of_nat :: "nat \<Rightarrow> string" where
  "string_of_nat n =
     (if n < 10 then [digit_char n] else string_of_nat (n div 10) @ [digit_char (n mod 10)])"
  by pat_completeness auto
termination
  by (relation "measure id") auto

declare string_of_nat.simps [simp del]

definition string_of_int :: "int \<Rightarrow> string" where
  "string_of_int i = (if i < 0 then ''-'' @ string_of_nat (nat (- i)) else string_of_nat (nat i))"

fun js_toString :: "jsnum \<Rightarrow> string" where
  "js_toString NaN = ''NaN''"
| "js_toString NegInf = ''-Infinity''"
| "js_toString PosInf = ''Infinity''"
| "js_toString (Fin x) = string_of_int \<lfloor>x\<rfloor>"

subsection \<open>The \<^verbatim>\<open>Map\<close> of clusters\<close>

text \<open>
  A JavaScript \<^verbatim>\<open>Map\<close> keeps its entries in the order in which their keys were first
  set: it is an association list with distinct keys. \<^verbatim>\<open>set\<close> on a key that is present
  replaces the value in place, on a new key it appends the entry. \<^verbatim>\<open>get\<close> on an absent key
  is \<^verbatim>\<open>undefined\<close>, here \<open>None\<close>.
\<close>

type_synonym cluster_map = "(string \<times> cluster) list"

definition map_has :: "cluster_map \<Rightarrow> string \<Rightarrow> bool" where
  "map_has m k = (k \<in> set (map fst m))"

definition map_get :: "cluster_map \<Rightarrow> string \<Rightarrow> cluster option" where
  "map_get m k = map_of m k"

fun map_set :: "string \<Rightarrow> cluster \<Rightarrow> cluster_map \<Rightarrow> cluster_map" where
  "map_set k v [] = [(k, v)]"
| "map_set k v ((k', v') # m) = (if k' = k then (k, v) # m else (k', v') # map_set k v m)"

definition map_values :: "cluster_map \<Rightarrow> cluster list" where
  "map_values m = map snd m"

section \<open>The grid clusterer\<close>

text \<open>
  The cell of a point: \<^verbatim>\<open>Math.floor(point.lat / gridSize)\<close> and
  \<^verbatim>\<open>Math.floor(point.lng / gridSize)\<close>, and the key string built from them. The
  division is the machine's, so the cell is the one the program computes.
\<close>

definition cellX :: "machine \<Rightarrow> jsnum \<Rightarrow> point \<Rightarrow> jsnum" where
  "cellX m gridSize p = Math_floor (js_div m (lat p) gridSize)"

definition cellY :: "machine \<Rightarrow> jsnum \<Rightarrow> point \<Rightarrow> jsnum" where
  "cellY m gridSize p = Math_floor (js_div m (lng p) gridSize)"

definition keyString :: "jsnum \<Rightarrow> jsnum \<Rightarrow> string" where
  "keyString gx gy = js_toString gx @ '','' @ js_toString gy"

definition gridKey :: "machine \<Rightarrow> jsnum \<Rightarrow> point \<Rightarrow> string" where
  "gridKey m gridSize p = keyString (cellX m gridSize p) (cellY m gridSize p)"

text \<open>
  The body of the \<^verbatim>\<open>forEach\<close> callback of \<^verbatim>\<open>createGridClusters\<close>, on the map built so
  far. \<^verbatim>\<open>clusters.get(gridKey m).points.push(point)\<close> appends to the array of the object
  stored in the map, so the entry changes in place; were \<^verbatim>\<open>get\<close> to return
  \<^verbatim>\<open>undefined\<close>, reading \<^verbatim>\<open>.points\<close> would throw a \<open>TypeError\<close>.
\<close>

definition cluster_step :: "machine \<Rightarrow> jsnum \<Rightarrow> cluster_map \<Rightarrow> point \<Rightarrow> error + cluster_map" where
  "cluster_step m gridSize clusters p =
     (let gx = Math_floor (js_div m (lat p) gridSize);
          gy = Math_floor (js_div m (lng p) gridSize);
          k = keyString gx gy;
          clusters1 =
            (if \<not> map_has clusters k
             then map_set k \<lparr>points = [], gridX = gx, gridY = gy\<rparr> clusters
             else clusters)
      in case map_get clusters1 k of
           None \<Rightarrow> Inl TypeError
         | Some c \<Rightarrow> Inr (map_set k (c\<lparr>points := points c @ [p]\<rparr>) clusters1))"

text \<open>\<^verbatim>\<open>points.forEach(...)\<close>: the callback on each point in turn; an error ends the loop.\<close>

fun forEach_point :: "machine \<Rightarrow> jsnum \<Rightarrow> point list \<Rightarrow> cluster_map \<Rightarrow> error + cluster_map" where
  "forEach_point m gridSize [] clusters = Inr clusters"
| "forEach_point m gridSize (p # ps) clusters =
     (case cluster_step m gridSize clusters p of
        Inl e \<Rightarrow> Inl e
      | Inr clusters' \<Rightarrow> forEach_point m gridSize ps clusters')"

text \<open>
  \<^verbatim>\<open>createGridClusters(points, gridSize)\<close>: an empty map, the loop, then
  \<^verbatim>\<open>Array.from(clusters.values())\<close>. The source has no check of \<^verbatim>\<open>gridSize\<close>.
\<close>

definition createGridClusters :: "machine \<Rightarrow> point list \<Rightarrow> jsnum \<Rightarrow> error + cluster list" where
  "createGridClusters m pts gridSize =
     (case forEach_point m gridSize pts [] of
        Inl e \<Rightarrow> Inl e
      | Inr clusters \<Rightarrow> Inr (map_values clusters))"

section \<open>The nearby query\<close>

text \<open>
  \<^verbatim>\<open>Array.prototype.sort(comparefn)\<close> is stable. An element \<open>a\<close> that stands before \<open>b\<close>
  moves behind it only when \<open>comparefn(a, b) > 0\<close>; a result that is zero or \<open>NaN\<close>
  leaves the two in their order. With a comparator that is a consistent ordering every
  stable sort gives the same array; the model is the insertion sort.
\<close>

fun sort_insert :: "('a \<Rightarrow> 'a \<Rightarrow> jsnum) \<Rightarrow> 'a \<Rightarrow> 'a list \<Rightarrow> 'a list" where
  "sort_insert cmp a [] = [a]"
| "sort_insert cmp a (b # bs) =
     (if js_lt (Fin 0) (cmp a b) then b # sort_insert cmp a bs else a # b # bs)"

definition Array_sort :: "('a \<Rightarrow> 'a \<Rightarrow> jsnum) \<Rightarrow> 'a list \<Rightarrow> 'a list" where
  "Array_sort cmp xs = foldr (sort_insert cmp) xs []"

text \<open>The distance of a point from the centre, as both callbacks compute it.\<close>

definition distanceFrom :: "machine \<Rightarrow> latlng \<Rightarrow> point \<Rightarrow> jsnum" where
  "distanceFrom m center p = calculateDistance m (lat center) (lng center) (lat p) (lng p)"

text \<open>
  The query of \<^verbatim>\<open>findNearbyPoints\<close>: the filter and the sort on \<^verbatim>\<open>allPoints\<close>. In the
  source \<^verbatim>\<open>allPoints\<close> is a module variable, and \<^verbatim>\<open>center\<close> and \<^verbatim>\<open>radius\<close> are locals
  set from the map (or to fixed demo values) before the query; here they are the
  arguments. The source has no check of \<^verbatim>\<open>radius\<close>, and nothing in the query throws.
\<close>

definition findNearbyPoints ::
  "machine \<Rightarrow> point list \<Rightarrow> latlng \<Rightarrow> jsnum \<Rightarrow> error + point list" where
  "findNearbyPoints m allPoints center radius =
     (let nearbyPoints =
            filter (\<lambda>p. let distance = calculateDistance m (lat center) (lng center) (lat p) (lng p)
                        in js_le distance radius) allPoints;
          sorted_points =
            Array_sort (\<lambda>a b.
              let distanceA = calculateDistance m (lat center) (lng center) (lat a) (lng a);
                  distanceB = calculateDistance m (lat center) (lng center) (lat b) (lng b)
              in js_sub m distanceA distanceB) nearbyPoints
      in Inr sorted_points)"

section \<open>Notions used to state the properties\<close>

text \<open>The elements of a list in the order of their first appearance, each once.\<close>

fun first_appearance :: "'a list \<Rightarrow> 'a list" where
  "first_appearance [] = []"
| "first_appearance (x # xs) = x # filter (\<lambda>y. y \<noteq> x) (first_appearance xs)"

text \<open>The cell key of a point as a pair of numbers.\<close>

definition cellKey :: "machine \<Rightarrow> jsnum \<Rightarrow> point \<Rightarrow> jsnum \<times> jsnum" where
  "cellKey m gridSize p = (cellX m gridSize p, cellY m gridSize p)"

text \<open>
  The clusters as the loop builds them, described directly: the members of a key are the
  input points with that key, in input order; the cluster of a key carries the cell of
  its first member; the map lists the keys in the order of their first appearance.
\<close>

definition cell_members :: "machine \<Rightarrow> jsnum \<Rightarrow> point list \<Rightarrow> string \<Rightarrow> point list" where
  "cell_members m g ps k = filter (\<lambda>p. gridKey m g p = k) ps"

definition cell_cluster :: "machine \<Rightarrow> jsnum \<Rightarrow> point list \<Rightarrow> string \<Rightarrow> cluster" where
  "cell_cluster m g ps k =
     \<lparr>points = cell_members m g ps k,
      gridX = cellX m g (hd (cell_members m g ps k)),
      gridY = cellY m g (hd (cell_members m g ps k))\<rparr>"

definition grouped :: "machine \<Rightarrow> jsnum \<Rightarrow> point list \<Rightarrow> cluster_map" where
  "grouped m g ps = map (\<lambda>k. (k, cell_cluster m g ps k)) (first_appearance (map (gridKey m g) ps))"

text \<open>The same cluster, described by the cell key as a pair of numbers.\<close>

definition cell_group :: "machine \<Rightarrow> jsnum \<Rightarrow> point list \<Rightarrow> jsnum \<times> jsnum \<Rightarrow> cluster" where
  "cell_group m g ps k = \<lparr>points = filter (\<lambda>p. cellKey m g p = k) ps, gridX = fst k, gridY = snd k\<rparr>"

text \<open>A number is finite when it is neither \<open>NaN\<close> nor an infinity.\<close>

fun is_finite :: "jsnum \<Rightarrow> bool" where
  "is_finite (Fin x) = True"
| "is_finite _ = False"

text \<open>The real value of a finite number, used as the sort key of a finite distance.\<close>

fun js_real :: "jsnum \<Rightarrow> real" where
  "js_real (Fin x) = x"
| "js_real _ = 0"

text \<open>
  The sine of half an angle difference in radians,
  \<^verbatim>\<open>Math.sin(((y - x) * Math.PI / 180) / 2)\<close>, as it stands in \<open>calculateDistance\<close>
  for the latitudes and for the longitudes.
\<close>

definition half_angle_sine :: "machine \<Rightarrow> jsnum \<Rightarrow> jsnum \<Rightarrow> jsnum" where
  "half_angle_sine m x y =
     Math_sin m (js_div m (js_div m (js_mul m (js_sub m y x) (Math_PI m)) (Fin 180)) (Fin 2))"

subsection \<open>Sample data\<close>

text \<open>
  Three points of the mock data of \<^verbatim>\<open>script.js\<close>, and the demo centre (Melbourne). A
  decimal literal stands for its decimal value; the double that JavaScript reads for it
  differs from it by less than \<open>10\<^sup>-\<^sup>1\<^sup>3\<close>.
\<close>

definition london :: point where
  "london = \<lparr>lat = Fin 51.5074, lng = Fin (- 0.1278), ident = 2, name = ''London'',
     kind = ''city'', description = ''Capital of the United Kingdom''\<rparr>"

definition melbourne :: point where
  "melbourne = \<lparr>lat = Fin (- 37.8136), lng = Fin 144.9631, ident = 11, name = ''Melbourne'',
     kind = ''city'', description = ''Cultural capital of Australia''\<rparr>"

definition st_kilda :: point where
  "st_kilda = \<lparr>lat = Fin (- 37.8677), lng = Fin 144.9811, ident = 18, name = ''St Kilda'',
     kind = ''suburb'', description = ''Famous beachside suburb 8km south of Melbourne CBD''\<rparr>"

definition melbourne_center :: latlng where
  "melbourne_center = \<lparr>lat = Fin (- 37.8136), lng = Fin 144.9631\<rparr>"

text \<open>
  Three points on the equator, two of them at the same place and the third on the
  opposite side of the Earth, and the centre they are measured from.
\<close>

definition equator_a :: point where
  "equator_a = \<lparr>lat = Fin 0, lng = Fin 0, ident = 101, name = ''A'', kind = ''test'', description = []\<rparr>"

definition equator_b :: point where
  "equator_b = \<lparr>lat = Fin 0, lng = Fin 0, ident = 102, name = ''B'', kind = ''test'', description = []\<rparr>"

definition antipode :: point where
  "antipode = \<lparr>lat = Fin 0, lng = Fin 180, ident = 103, name = ''C'', kind = ''test'', description = []\<rparr>"

definition equator_center :: latlng where
  "equator_center = \<lparr>lat = Fin 0, lng = Fin 0\<rparr>"

section \<open>Properties of every machine\<close>

lemma machine_ieee: "ieee (Rep_machine m)"
  using Rep_machine[of m] by simp

lemma rnd_mono: "x \<le> y \<Longrightarrow> js_le (rnd m x) (rnd m y)"
  using machine_ieee[of m] unfolding ieee_def rnd_def by blast

lemma rnd_neg: "rnd m (- x) = js_neg (rnd m x)"
  using machine_ieee[of m] unfolding ieee_def rnd_def by blast

lemma rnd_int: "\<bar>n\<bar> \<le> 2 ^ 53 \<Longrightarrow> rnd m (of_int n) = Fin (of_int n)"
  using machine_ieee[of m] unfolding ieee_def rnd_def by blast

lemma rnd_idem: "rnd m x = Fin y \<Longrightarrow> rnd m y = Fin y"
  using machine_ieee[of m] unfolding ieee_def rnd_def by blast

lemma rnd_diff: "rnd m x = Fin x \<Longrightarrow> rnd m y = Fin y \<Longrightarrow> x \<noteq> y \<Longrightarrow> rnd m (x - y) \<noteq> Fin 0"
  using machine_ieee[of m] unfolding ieee_def rnd_def by blast

lemma rnd_overflow: "2 ^ 1024 \<le> x \<Longrightarrow> rnd m x = PosInf"
  using machine_ieee[of m] unfolding ieee_def rnd_def by blast

lemma msin_neg: "msin m (- x) = - msin m x"
  using machine_ieee[of m] unfolding ieee_def msin_def by blast

lemma msin_zero: "msin m 0 = 0"
  using machine_ieee[of m] unfolding ieee_def msin_def by blast

lemma mcos_bound: "\<bar>mcos m x\<bar> \<le> 1"
  using machine_ieee[of m] unfolding ieee_def mcos_def by blast

lemma msqrt_nonneg: "0 \<le> x \<Longrightarrow> 0 \<le> msqrt m x"
  using machine_ieee[of m] unfolding ieee_def msqrt_def by blast

lemma msqrt_zero: "msqrt m 0 = 0"
  using machine_ieee[of m] unfolding ieee_def msqrt_def by blast

lemma msqrt_one: "msqrt m 1 = 1"
  using machine_ieee[of m] unfolding ieee_def msqrt_def by blast

lemma matan2_nonneg: "0 \<le> y \<Longrightarrow> 0 \<le> matan2 m y x"
  using machine_ieee[of m] unfolding ieee_def matan2_def by blast

lemma matan2_bound: "\<bar>matan2 m y x\<bar> \<le> 4"
  using machine_ieee[of m] unfolding ieee_def matan2_def by blast

lemma matan2_zero: "0 \<le> x \<Longrightarrow> matan2 m 0 x = 0"
  using machine_ieee[of m] unfolding ieee_def matan2_def by blast

lemma mpi_bounds: "2 \<le> mpi m" "mpi m \<le> 4"
  using machine_ieee[of m] unfolding ieee_def mpi_def by blast+

text \<open>Consequences for the rounding: it is never \<open>NaN\<close>, it keeps the sign and bounds.\<close>

lemma rnd_not_NaN: "rnd m x \<noteq> NaN"
proof
  assume "rnd m x = NaN"
  moreover have "js_le (rnd m x) (rnd m x)" by (rule rnd_mono) simp
  ultimately show False by simp
qed

lemma rnd_zero: "rnd m 0 = Fin 0"
  using rnd_int[of 0 m] by simp

lemma rnd_one: "rnd m 1 = Fin 1"
  using rnd_int[of 1 m] by simp

lemma rnd_nonneg:
  assumes "0 \<le> x"
  shows "rnd m x = PosInf \<or> (\<exists>y. 0 \<le> y \<and> rnd m x = Fin y)"
proof -
  have "js_le (Fin 0) (rnd m x)" using rnd_mono[OF assms, of m] by (simp add: rnd_zero)
  then show ?thesis by (cases "rnd m x") auto
qed

lemma rnd_nonpos:
  assumes "x \<le> 0"
  shows "rnd m x = NegInf \<or> (\<exists>y. y \<le> 0 \<and> rnd m x = Fin y)"
proof -
  have "js_le (rnd m x) (Fin 0)" using rnd_mono[OF assms, of m] by (simp add: rnd_zero)
  then show ?thesis by (cases "rnd m x") auto
qed

lemma rnd_between:
  assumes "0 \<le> x" and "x \<le> of_int n" and "\<bar>n\<bar> \<le> 2 ^ 53"
  shows "\<exists>y. 0 \<le> y \<and> y \<le> of_int n \<and> rnd m x = Fin y"
proof -
  have "js_le (rnd m x) (Fin (of_int n))"
    using rnd_mono[OF assms(2), of m] rnd_int[OF assms(3), of m] by simp
  moreover have "js_le (Fin 0) (rnd m x)" using rnd_mono[OF assms(1), of m] by (simp add: rnd_zero)
  ultimately show ?thesis by (cases "rnd m x") auto
qed

text \<open>
  On two doubles the sign of the rounded difference is the sign of the difference, so
  the comparator \<^verbatim>\<open>distanceA - distanceB\<close> orders doubles as their values.
\<close>

lemma rnd_diff_pos_iff:
  assumes "rnd m x = Fin x" and "rnd m y = Fin y"
  shows "js_lt (Fin 0) (rnd m (x - y)) \<longleftrightarrow> y < x"
proof (cases "y < x")
  case True
  then have "0 \<le> x - y" and "x \<noteq> y" by simp_all
  from rnd_nonneg[OF this(1), of m] rnd_diff[OF assms this(2)] True
  show ?thesis by auto
next
  case False
  then have "x - y \<le> 0" by simp
  from rnd_nonpos[OF this, of m] False show ?thesis by auto
qed

section \<open>Arithmetic of the numbers\<close>

text \<open>Negation passes through the operations; addition and multiplication commute.\<close>

lemma js_neg_neg: "js_neg (js_neg a) = a"
  by (cases a) auto

lemma js_add_commute: "js_add m a b = js_add m b a"
  by (cases a; cases b) (auto simp: add.commute)

lemma js_neg_add: "js_neg (js_add m a b) = js_add m (js_neg a) (js_neg b)"
  by (cases a; cases b) (auto simp: rnd_neg[symmetric])

lemma js_sub_swap: "js_sub m a b = js_neg (js_sub m b a)"
  by (simp add: js_sub_def js_neg_add js_neg_neg js_add_commute)

lemma js_mul_neg_left: "js_mul m (js_neg a) b = js_neg (js_mul m a b)"
  by (cases a; cases b) (auto simp: rnd_neg[symmetric])

lemma js_mul_neg_right: "js_mul m a (js_neg b) = js_neg (js_mul m a b)"
  by (cases a; cases b) (auto simp: rnd_neg[symmetric])

lemma js_mul_neg_neg: "js_mul m (js_neg a) (js_neg a) = js_mul m a a"
  by (cases a) auto

lemma js_mul_commute: "js_mul m a b = js_mul m b a"
  by (cases a; cases b) (auto simp: mult.commute)

lemma js_div_neg_left: "js_div m (js_neg a) b = js_neg (js_div m a b)"
  by (cases a; cases b) (auto simp: rnd_neg[symmetric])

lemma Math_sin_neg: "Math_sin m (js_neg a) = js_neg (Math_sin m a)"
  by (cases a) (auto simp: msin_neg)

section \<open>The distance: symmetry and range\<close>

text \<open>
  Swapping the two points negates both half-angle sines, and each of them enters the
  formula multiplied by itself.
\<close>

lemma half_angle_sine_swap: "half_angle_sine m x y = js_neg (half_angle_sine m y x)"
  unfolding half_angle_sine_def
  by (subst js_sub_swap) (simp only: js_mul_neg_left js_div_neg_left Math_sin_neg)

lemma calculateDistance_swap:
  "calculateDistance m lat1 lon1 lat2 lon2 = calculateDistance m lat2 lon2 lat1 lon1"
proof -
  have 1: "js_mul m (half_angle_sine m x y) (half_angle_sine m x y)
         = js_mul m (half_angle_sine m y x) (half_angle_sine m y x)" for x y
    by (simp only: half_angle_sine_swap[of m x y] js_mul_neg_neg)
  have 2: "js_mul m (js_mul m c (half_angle_sine m x y)) (half_angle_sine m x y)
         = js_mul m (js_mul m c (half_angle_sine m y x)) (half_angle_sine m y x)" for c x y
    by (simp only: half_angle_sine_swap[of m x y] js_mul_neg_left js_mul_neg_right js_neg_neg)
  show ?thesis
    unfolding calculateDistance_def Let_def half_angle_sine_def[symmetric]
    by (simp only: 1[of lat1 lat2] 2[of _ lon1 lon2]
        js_mul_commute[of m "Math_cos m (js_div m (js_mul m lat1 (Math_PI m)) (Fin 180))"])
qed

text \<open>
  A square root is never negative, and \<^verbatim>\<open>Math.atan2\<close> of a first argument that is not
  negative lies between 0 and 4; twice that and 6371 times that are far from the
  overflow threshold. Whatever the haversine term is, the distance is \<open>NaN\<close> or a finite
  double \<open>\<ge> 0\<close>.
\<close>

lemma Math_sqrt_cases:
  "Math_sqrt m z = NaN \<or> Math_sqrt m z = PosInf \<or> (\<exists>r. 0 \<le> r \<and> Math_sqrt m z = Fin r)"
  by (cases z) (auto simp: msqrt_nonneg)

lemma Math_atan2_range:
  assumes "y = PosInf \<or> (\<exists>r. 0 \<le> r \<and> y = Fin r)"
  shows "Math_atan2 m y x = NaN \<or> (\<exists>t. 0 \<le> t \<and> t \<le> 4 \<and> Math_atan2 m y x = Fin t)"
proof (cases "x = NaN")
  case True
  then show ?thesis by (cases y) simp_all
next
  case False
  have p: "0 \<le> mpi m" "mpi m \<le> 4" using mpi_bounds[of m] by simp_all
  from assms show ?thesis
  proof
    assume y: "y = PosInf"
    show ?thesis
    proof (cases x)
      case NaN
      with False show ?thesis by simp
    next
      case NegInf
      then show ?thesis using y p by (intro disjI2 exI[of _ "3 * mpi m / 4"]) simp
    next
      case (Fin x3)
      then show ?thesis using y p by (intro disjI2 exI[of _ "mpi m / 2"]) simp
    next
      case PosInf
      then show ?thesis using y p by (intro disjI2 exI[of _ "mpi m / 4"]) simp
    qed
  next
    assume "\<exists>r. 0 \<le> r \<and> y = Fin r"
    then obtain r where r: "0 \<le> r" "y = Fin r" by blast
    have "0 \<le> matan2 m r z" and "matan2 m r z \<le> 4" for z
      using matan2_nonneg[OF r(1), of m z] matan2_bound[of m r z] by simp_all
    then show ?thesis using False p r by (cases x) auto
  qed
qed

lemma calculateDistance_range:
  "calculateDistance m lat1 lon1 lat2 lon2 = NaN \<or>
   (\<exists>d. 0 \<le> d \<and> rnd m d = Fin d \<and> calculateDistance m lat1 lon1 lat2 lon2 = Fin d)"
proof -
  define a where "a = js_add m
      (js_mul m (half_angle_sine m lat1 lat2) (half_angle_sine m lat1 lat2))
      (js_mul m
        (js_mul m
          (js_mul m (Math_cos m (js_div m (js_mul m lat1 (Math_PI m)) (Fin 180)))
                  (Math_cos m (js_div m (js_mul m lat2 (Math_PI m)) (Fin 180))))
          (half_angle_sine m lon1 lon2))
        (half_angle_sine m lon1 lon2))"
  define c where "c = Math_atan2 m (Math_sqrt m a) (Math_sqrt m (js_sub m (Fin 1) a))"
  have d: "calculateDistance m lat1 lon1 lat2 lon2 = js_mul m (Fin 6371) (js_mul m (Fin 2) c)"
    by (simp only: calculateDistance_def Let_def a_def c_def half_angle_sine_def)
  consider "Math_sqrt m a = NaN" | "Math_sqrt m a = PosInf \<or> (\<exists>r. 0 \<le> r \<and> Math_sqrt m a = Fin r)"
    using Math_sqrt_cases[of m a] by blast
  then show ?thesis
  proof cases
    case 1
    then show ?thesis by (simp add: d c_def)
  next
    case 2
    from Math_atan2_range[OF 2] consider "c = NaN" | t where "0 \<le> t" "t \<le> 4" "c = Fin t"
      unfolding c_def by blast
    then show ?thesis
    proof cases
      case 1
      then show ?thesis by (simp add: d)
    next
      case 2
      have "\<exists>y. 0 \<le> y \<and> y \<le> of_int 8 \<and> rnd m (2 * t) = Fin y"
        using 2 by (intro rnd_between) simp_all
      then obtain y where y: "0 \<le> y" "y \<le> 8" "rnd m (2 * t) = Fin y" by auto
      have "\<exists>z. 0 \<le> z \<and> z \<le> of_int 50968 \<and> rnd m (6371 * y) = Fin z"
        using y by (intro rnd_between) simp_all
      then obtain z where z: "0 \<le> z" "rnd m (6371 * y) = Fin z" by auto
      have "calculateDistance m lat1 lon1 lat2 lon2 = Fin z"
        by (simp add: d 2 y z)
      moreover have "rnd m z = Fin z" using z(2) by (rule rnd_idem)
      ultimately show ?thesis using z(1) by blast
    qed
  qed
qed

text \<open>
  A number no larger in absolute value than a double, or than an integer up to \<open>2\<^sup>5\<^sup>3\<close>,
  rounds to a finite double.
\<close>

lemma rnd_finite_int:
  assumes "\<bar>x\<bar> \<le> of_int n" and "\<bar>n\<bar> \<le> 2 ^ 53"
  shows "\<exists>y. rnd m x = Fin y"
proof -
  have "\<bar>- n\<bar> \<le> 2 ^ 53" using assms(2) by simp
  from rnd_int[OF this, of m] have lo: "rnd m (- of_int n) = Fin (- of_int n)" by simp
  have "- of_int n \<le> x" and "x \<le> of_int n" using assms(1) by linarith+
  from rnd_mono[OF this(1), of m] rnd_mono[OF this(2), of m]
  have "js_le (Fin (- of_int n)) (rnd m x)" and "js_le (rnd m x) (Fin (of_int n))"
    by (simp_all add: lo rnd_int[OF assms(2)])
  then show ?thesis by (cases "rnd m x") auto
qed

lemma rnd_finite_below:
  assumes "rnd m u = Fin u" and "\<bar>x\<bar> \<le> \<bar>u\<bar>"
  shows "\<exists>y. rnd m x = Fin y"
proof -
  have up: "rnd m \<bar>u\<bar> = Fin \<bar>u\<bar>"
    using assms(1) rnd_neg[of m u] by (cases "0 \<le> u") (simp_all add: abs_if)
  then have lo: "rnd m (- \<bar>u\<bar>) = Fin (- \<bar>u\<bar>)" by (simp add: rnd_neg)
  have "- \<bar>u\<bar> \<le> x" and "x \<le> \<bar>u\<bar>" using assms(2) by linarith+
  from rnd_mono[OF this(1), of m] rnd_mono[OF this(2), of m]
  have "js_le (Fin (- \<bar>u\<bar>)) (rnd m x)" and "js_le (rnd m x) (Fin \<bar>u\<bar>)"
    by (simp_all only: lo up)
  then show ?thesis by (cases "rnd m x") auto
qed

text \<open>
  The distance of a point from itself is zero as soon as \<^verbatim>\<open>lat * Math.PI\<close> is finite:
  both differences are zero, so both sines are zero, and the cosines are finite.
\<close>

lemma calculateDistance_same:
  assumes "js_mul m (Fin la) (Math_PI m) = Fin u"
  shows "calculateDistance m (Fin la) (Fin lo) (Fin la) (Fin lo) = Fin 0"
proof -
  have u: "rnd m (la * mpi m) = Fin u" using assms by (simp add: Math_PI_def)
  then have uu: "rnd m u = Fin u" by (rule rnd_idem)
  have "\<bar>u / 180\<bar> \<le> \<bar>u\<bar>" by simp
  from rnd_finite_below[OF uu this] obtain v where v: "rnd m (u / 180) = Fin v" by blast
  define c where "c = mcos m v"
  have "\<bar>c\<bar> \<le> 1" unfolding c_def by (rule mcos_bound)
  then have "\<bar>c\<bar> * \<bar>c\<bar> \<le> 1 * 1" by (intro mult_mono) simp_all
  then have "\<bar>c * c\<bar> \<le> 1" by (simp only: abs_mult mult_1)
  then have "\<bar>c * c\<bar> \<le> of_int 1" by simp
  from rnd_finite_int[OF this, of m] obtain p where p: "rnd m (c * c) = Fin p" by auto
  show ?thesis
    by (simp add: calculateDistance_def Let_def Math_PI_def js_sub_def rnd_zero rnd_one
        msin_zero msqrt_zero msqrt_one matan2_zero u v c_def[symmetric] p)
qed

lemma latitude_in_range_finite:
  assumes "\<bar>la\<bar> \<le> 90"
  shows "\<exists>u. js_mul m (Fin la) (Math_PI m) = Fin u"
proof -
  have "\<bar>la * mpi m\<bar> \<le> 90 * 4"
    unfolding abs_mult using assms mpi_bounds[of m] by (intro mult_mono) simp_all
  then have "\<bar>la * mpi m\<bar> \<le> of_int 360" by simp
  from rnd_finite_int[OF this, of m] show ?thesis by (simp add: Math_PI_def)
qed

text \<open>
  When \<^verbatim>\<open>lat * Math.PI\<close> overflows, the cosine of that latitude is \<open>NaN\<close> and so is the
  distance, whatever the other arguments are.
\<close>

lemma js_add_NaN_right: "js_add m a NaN = NaN"
  by (cases a) auto

lemma js_mul_NaN_right: "js_mul m a NaN = NaN"
  by (cases a) auto

lemma Math_atan2_NaN_right: "Math_atan2 m a NaN = NaN"
  by (cases a) auto

lemma calculateDistance_overflow_first:
  assumes "2 ^ 1024 \<le> la * mpi m"
  shows "calculateDistance m (Fin la) lon1 lat2 lon2 = NaN"
  using rnd_overflow[OF assms]
  by (simp add: calculateDistance_def Let_def Math_PI_def js_add_NaN_right)

lemma calculateDistance_overflow_second:
  assumes "2 ^ 1024 \<le> la * mpi m"
  shows "calculateDistance m lat1 lon1 (Fin la) lon2 = NaN"
  using rnd_overflow[OF assms]
  by (simp add: calculateDistance_def Let_def Math_PI_def js_add_NaN_right js_mul_NaN_right)

lemma huge_latitude_overflows: "2 ^ 1024 \<le> 10 ^ 308 * mpi m"
proof -
  have "(2::real) ^ 1024 \<le> 10 ^ 308 * 2" by simp
  also have "\<dots> \<le> 10 ^ 308 * mpi m" using mpi_bounds(1)[of m] by simp
  finally show ?thesis .
qed

section \<open>The exact machine\<close>

lemma rnd_exact:
  "rnd exact x = (if \<bar>x\<bar> < 2 ^ 1024 then Fin x else if 0 < x then PosInf else NegInf)"
  by (simp add: rnd_def exact.rep_eq exact_ops_def)

lemma rnd_exact_small: "\<bar>x\<bar> \<le> 10 ^ 9 \<Longrightarrow> rnd exact x = Fin x"
proof -
  assume "\<bar>x\<bar> \<le> 10 ^ 9"
  also have "(10::real) ^ 9 < 2 ^ 1024" by simp
  finally show ?thesis by (simp add: rnd_exact)
qed

lemma exact_functions:
  "msin exact = sin" "mcos exact = cos" "msqrt exact = sqrt" "matan2 exact = real_atan2"
  "mpi exact = pi"
  by (simp_all add: msin_def mcos_def msqrt_def matan2_def mpi_def exact.rep_eq exact_ops_def)

section \<open>Numbers as strings, and the grid key\<close>

text \<open>
  The decimal digits determine the integer, a printed number contains no comma, and the
  texts \<open>NaN\<close>, \<open>Infinity\<close> and \<open>-Infinity\<close> are not digits: two points have the
  same key string exactly when they have the same cell.
\<close>

lemma digit_char_in: "d < 10 \<Longrightarrow> digit_char d \<in> set ''0123456789''"
  unfolding digit_char_def by (rule nth_mem) simp

lemma digit_char_inj: "d < 10 \<Longrightarrow> e < 10 \<Longrightarrow> digit_char d = digit_char e \<Longrightarrow> d = e"
proof -
  assume a: "d < 10" "e < 10" "digit_char d = digit_char e"
  have "distinct ''0123456789''" by simp
  moreover have "d < length ''0123456789''" "e < length ''0123456789''" using a by simp_all
  ultimately show "d = e" using a(3) unfolding digit_char_def
    by (simp only: nth_eq_iff_index_eq)
qed

lemma string_of_nat_digits: "set (string_of_nat n) \<subseteq> set ''0123456789''"
proof (induction n rule: string_of_nat.induct)
  case (1 n)
  show ?case
  proof (cases "n < 10")
    case True
    then show ?thesis using digit_char_in[of n] by (subst string_of_nat.simps) simp
  next
    case False
    have "n mod 10 < 10" by simp
    from digit_char_in[OF this] 1[OF False] False show ?thesis
      by (subst string_of_nat.simps) simp
  qed
qed

lemma string_of_nat_nonempty: "string_of_nat n \<noteq> []"
  by (subst string_of_nat.simps) simp

lemma string_of_nat_length: "(length (string_of_nat n) = 1) = (n < 10)"
proof (cases "n < 10")
  case True
  then show ?thesis by (subst string_of_nat.simps) simp
next
  case False
  then have "length (string_of_nat n) = Suc (length (string_of_nat (n div 10)))"
    by (subst string_of_nat.simps) simp
  then show ?thesis using False string_of_nat_nonempty[of "n div 10"] by simp
qed

lemma string_of_nat_inj: "string_of_nat n = string_of_nat m \<Longrightarrow> n = m"
proof (induction n arbitrary: m rule: string_of_nat.induct)
  case (1 n)
  show ?case
  proof (cases "n < 10")
    case True
    then have "length (string_of_nat n) = 1" using string_of_nat_length[of n] by blast
    then have m: "m < 10" using "1.prems" string_of_nat_length[of m] by metis
    from "1.prems" have "[digit_char n] = [digit_char m]"
      using True m by (simp add: string_of_nat.simps[of n] string_of_nat.simps[of m])
    then show ?thesis using digit_char_inj True m by simp
  next
    case False
    then have "length (string_of_nat n) \<noteq> 1" using string_of_nat_length[of n] by blast
    then have m: "\<not> m < 10" using "1.prems" string_of_nat_length[of m] by metis
    from "1.prems" have "string_of_nat (n div 10) @ [digit_char (n mod 10)]
        = string_of_nat (m div 10) @ [digit_char (m mod 10)]"
      using False m by (simp add: string_of_nat.simps[of n] string_of_nat.simps[of m])
    then have a: "string_of_nat (n div 10) = string_of_nat (m div 10)"
      and b: "digit_char (n mod 10) = digit_char (m mod 10)" by simp_all
    from "1.IH"[OF False a] have "n div 10 = m div 10" .
    moreover from digit_char_inj[OF _ _ b] have "n mod 10 = m mod 10" by simp
    ultimately show ?thesis by (metis div_mult_mod_eq)
  qed
qed

lemma string_of_nat_no_minus: "CHR ''-'' \<notin> set (string_of_nat n)"
  using string_of_nat_digits[of n] by auto

lemma string_of_nat_no_comma: "CHR '','' \<notin> set (string_of_nat n)"
  using string_of_nat_digits[of n] by auto

lemma string_of_nat_no_letter: "CHR ''N'' \<notin> set (string_of_nat n)" "CHR ''I'' \<notin> set (string_of_nat n)"
  using string_of_nat_digits[of n] by auto

lemma string_of_int_inj: "string_of_int i = string_of_int j \<Longrightarrow> i = j"
proof -
  assume a: "string_of_int i = string_of_int j"
  have hdm: "hd (string_of_nat n) \<noteq> CHR ''-''" for n
    using string_of_nat_no_minus[of n] string_of_nat_nonempty[of n] hd_in_set by metis
  show ?thesis
  proof (cases "i < 0"; cases "j < 0")
    assume "i < 0" "j < 0"
    with a have "string_of_nat (nat (- i)) = string_of_nat (nat (- j))" by (simp add: string_of_int_def)
    from string_of_nat_inj[OF this] \<open>i < 0\<close> \<open>j < 0\<close> show ?thesis by simp
  next
    assume "i < 0" "\<not> j < 0"
    with a have "CHR ''-'' # string_of_nat (nat (- i)) = string_of_nat (nat j)"
      by (simp add: string_of_int_def)
    then have "hd (string_of_nat (nat j)) = CHR ''-''" by (metis list.sel(1))
    with hdm show ?thesis by simp
  next
    assume "\<not> i < 0" "j < 0"
    with a have "CHR ''-'' # string_of_nat (nat (- j)) = string_of_nat (nat i)"
      by (simp add: string_of_int_def)
    then have "hd (string_of_nat (nat i)) = CHR ''-''" by (metis list.sel(1))
    with hdm show ?thesis by simp
  next
    assume "\<not> i < 0" "\<not> j < 0"
    with a have "string_of_nat (nat i) = string_of_nat (nat j)" by (simp add: string_of_int_def)
    from string_of_nat_inj[OF this] \<open>\<not> i < 0\<close> \<open>\<not> j < 0\<close> show ?thesis by simp
  qed
qed

lemma string_of_int_chars:
  "CHR '','' \<notin> set (string_of_int i)" "CHR ''N'' \<notin> set (string_of_int i)" "CHR ''I'' \<notin> set (string_of_int i)"
  by (simp_all add: string_of_int_def string_of_nat_no_comma string_of_nat_no_letter)

lemma js_toString_no_comma: "CHR '','' \<notin> set (js_toString a)"
  by (cases a) (simp_all add: string_of_int_chars)

lemma js_toString_floor_inj:
  assumes "js_toString (Math_floor a) = js_toString (Math_floor b)"
  shows "Math_floor a = Math_floor b"
proof -
  have N: "string_of_int i \<noteq> ''NaN''" for i
    using string_of_int_chars(2)[of i] by auto
  have I: "string_of_int i \<noteq> ''Infinity''" for i
    using string_of_int_chars(3)[of i] by auto
  have M: "string_of_int i \<noteq> ''-Infinity''" for i
    using string_of_int_chars(3)[of i] by auto
  show ?thesis
  proof (cases a; cases b)
    fix x y assume "a = Fin x" "b = Fin y"
    with assms have "\<lfloor>real_of_int \<lfloor>x\<rfloor>\<rfloor> = \<lfloor>real_of_int \<lfloor>y\<rfloor>\<rfloor>"
      by (simp only: Math_floor.simps js_toString.simps string_of_int_inj)
    then show ?thesis using \<open>a = Fin x\<close> \<open>b = Fin y\<close> by simp
  qed (use assms N I M in \<open>auto simp: N[symmetric] I[symmetric] M[symmetric]\<close>)
qed

lemma append_comma_inj:
  assumes "a @ '','' @ b = c @ '','' @ d" "CHR '','' \<notin> set a" "CHR '','' \<notin> set c"
  shows "a = c \<and> b = d"
proof -
  have "takeWhile (\<lambda>ch. ch \<noteq> CHR '','') (a @ '','' @ b) = a"
    using assms(2) by (subst takeWhile_append2) auto
  moreover have "takeWhile (\<lambda>ch. ch \<noteq> CHR '','') (c @ '','' @ d) = c"
    using assms(3) by (subst takeWhile_append2) auto
  ultimately have "a = c" using assms(1) by simp
  then show ?thesis using assms(1) by simp
qed

lemma gridKey_eq_iff: "gridKey m g p = gridKey m g q \<longleftrightarrow> cellKey m g p = cellKey m g q"
proof
  assume "gridKey m g p = gridKey m g q"
  then have "js_toString (cellX m g p) = js_toString (cellX m g q) \<and> js_toString (cellY m g p) = js_toString (cellY m g q)"
    unfolding gridKey_def keyString_def by (intro append_comma_inj) (simp_all add: js_toString_no_comma)
  then show "cellKey m g p = cellKey m g q"
    unfolding cellKey_def cellX_def cellY_def using js_toString_floor_inj by simp
next
  assume "cellKey m g p = cellKey m g q"
  then show "gridKey m g p = gridKey m g q" by (simp add: cellKey_def gridKey_def)
qed

section \<open>What the clusterer computes\<close>

text \<open>
  After the loop has run over the points \<open>ps\<close>, the map is \<open>grouped m g ps\<close>: one step on
  \<open>grouped m g ps\<close> gives \<open>grouped m g (ps @ [p])\<close>, and never a \<open>TypeError\<close>.
\<close>

lemma set_first_appearance: "set (first_appearance xs) = set xs"
  by (induction xs) auto

lemma distinct_first_appearance: "distinct (first_appearance xs)"
  by (induction xs) (auto simp: set_first_appearance)

lemma first_appearance_snoc:
  "first_appearance (xs @ [x]) = (if x \<in> set xs then first_appearance xs else first_appearance xs @ [x])"
  by (induction xs) auto

lemma map_of_tabulate: "map_of (map (\<lambda>k. (k, f k)) ks) k = (if k \<in> set ks then Some (f k) else None)"
  by (induction ks) auto

lemma map_set_absent: "k \<notin> set (map fst m) \<Longrightarrow> map_set k v m = m @ [(k, v)]"
  by (induction m) auto

lemma map_set_last: "k \<notin> set (map fst m) \<Longrightarrow> map_set k v (m @ [(k, w)]) = m @ [(k, v)]"
  by (induction m) auto

lemma map_set_present:
  "k \<in> set ks \<Longrightarrow> distinct ks \<Longrightarrow>
   map_set k v (map (\<lambda>k'. (k', f k')) ks) = map (\<lambda>k'. (k', if k' = k then v else f k')) ks"
  by (induction ks) auto

lemma cell_members_snoc:
  "cell_members m g (ps @ [p]) k = (if gridKey m g p = k then cell_members m g ps k @ [p] else cell_members m g ps k)"
  by (simp add: cell_members_def)

lemma cell_members_empty_iff: "cell_members m g ps k = [] \<longleftrightarrow> k \<notin> set (map (gridKey m g) ps)"
  by (auto simp: cell_members_def filter_empty_conv)

lemma cell_cluster_snoc_other:
  "gridKey m g p \<noteq> k \<Longrightarrow> cell_cluster m g (ps @ [p]) k = cell_cluster m g ps k"
  by (simp add: cell_cluster_def cell_members_snoc)

lemma cell_cluster_snoc_new:
  "gridKey m g p \<notin> set (map (gridKey m g) ps) \<Longrightarrow>
   cell_cluster m g (ps @ [p]) (gridKey m g p) = \<lparr>points = [p], gridX = cellX m g p, gridY = cellY m g p\<rparr>"
  using cell_members_empty_iff[of m g ps "gridKey m g p"]
  by (simp add: cell_cluster_def cell_members_snoc)

lemma cell_cluster_snoc_old:
  "gridKey m g p \<in> set (map (gridKey m g) ps) \<Longrightarrow>
   cell_cluster m g (ps @ [p]) (gridKey m g p) = (cell_cluster m g ps (gridKey m g p))\<lparr>points := points (cell_cluster m g ps (gridKey m g p)) @ [p]\<rparr>"
  using cell_members_empty_iff[of m g ps "gridKey m g p"]
  by (simp add: cell_cluster_def cell_members_snoc)

lemma cluster_step_grouped: "cluster_step m g (grouped m g ps) p = Inr (grouped m g (ps @ [p]))"
proof -
  let ?k = "gridKey m g p"
  let ?ks = "first_appearance (map (gridKey m g) ps)"
  have k: "keyString (Math_floor (js_div m (lat p) g)) (Math_floor (js_div m (lng p) g)) = ?k"
    by (simp add: gridKey_def cellX_def cellY_def)
  have has: "map_has (grouped m g ps) ?k \<longleftrightarrow> ?k \<in> set (map (gridKey m g) ps)"
    by (simp add: map_has_def grouped_def comp_def set_first_appearance)
  have fst_grouped: "map fst (grouped m g ps) = ?ks"
    by (simp add: grouped_def comp_def)
  show ?thesis
  proof (cases "?k \<in> set (map (gridKey m g) ps)")
    case True
    then have kin: "?k \<in> set ?ks" by (simp only: set_first_appearance)
    have get: "map_get (grouped m g ps) ?k = Some (cell_cluster m g ps ?k)"
      unfolding map_get_def grouped_def using kin by (simp only: map_of_tabulate if_True)
    have "map_set ?k ((cell_cluster m g ps ?k)\<lparr>points := points (cell_cluster m g ps ?k) @ [p]\<rparr>) (grouped m g ps)
        = map (\<lambda>k'. (k', if k' = ?k then (cell_cluster m g ps ?k)\<lparr>points := points (cell_cluster m g ps ?k) @ [p]\<rparr> else cell_cluster m g ps k')) ?ks"
      unfolding grouped_def by (rule map_set_present[OF kin distinct_first_appearance])
    also have "\<dots> = map (\<lambda>k'. (k', cell_cluster m g (ps @ [p]) k')) ?ks"
      using cell_cluster_snoc_old[OF True] cell_cluster_snoc_other[of m g p _ ps]
      by (intro map_cong) auto
    also have "\<dots> = grouped m g (ps @ [p])"
      using True by (simp add: grouped_def first_appearance_snoc)
    finally show ?thesis
      using True has get by (simp add: cluster_step_def Let_def k)
  next
    case False
    let ?c = "\<lparr>points = [], gridX = cellX m g p, gridY = cellY m g p\<rparr>"
    have notin: "?k \<notin> set (map fst (grouped m g ps))"
      using False unfolding fst_grouped set_first_appearance by simp
    have set1: "map_set ?k ?c (grouped m g ps) = grouped m g ps @ [(?k, ?c)]"
      by (rule map_set_absent[OF notin])
    have get: "map_get (grouped m g ps @ [(?k, ?c)]) ?k = Some ?c"
      using notin by (simp add: map_get_def map_add_Some_iff map_of_eq_None_iff image_iff)
    have "map_set ?k (?c\<lparr>points := points ?c @ [p]\<rparr>) (grouped m g ps @ [(?k, ?c)])
        = grouped m g ps @ [(?k, ?c\<lparr>points := points ?c @ [p]\<rparr>)]"
      using notin by (simp add: map_set_last)
    also have "\<dots> = map (\<lambda>k'. (k', cell_cluster m g (ps @ [p]) k')) ?ks @ [(?k, cell_cluster m g (ps @ [p]) ?k)]"
    proof -
      have "grouped m g ps = map (\<lambda>k'. (k', cell_cluster m g (ps @ [p]) k')) ?ks"
        unfolding grouped_def
      proof (intro map_cong refl)
        fix k' assume "k' \<in> set ?ks"
        then have "gridKey m g p \<noteq> k'" using False by (auto simp: set_first_appearance)
        then show "(k', cell_cluster m g ps k') = (k', cell_cluster m g (ps @ [p]) k')"
          by (simp add: cell_cluster_snoc_other)
      qed
      then show ?thesis using cell_cluster_snoc_new[OF False] by simp
    qed
    also have "\<dots> = grouped m g (ps @ [p])"
      using False by (simp add: grouped_def first_appearance_snoc)
    finally show ?thesis
      using False has get set1
      by (simp add: cluster_step_def Let_def k cellX_def cellY_def)
  qed
qed

lemma forEach_point_grouped: "forEach_point m g ps (grouped m g pre) = Inr (grouped m g (pre @ ps))"
  by (induction ps arbitrary: pre) (simp_all add: cluster_step_grouped)

lemma createGridClusters_eq:
  "createGridClusters m ps g = Inr (map (cell_cluster m g ps) (first_appearance (map (gridKey m g) ps)))"
proof -
  have "grouped m g [] = []" by (simp add: grouped_def)
  with forEach_point_grouped[of m g ps "[]"] have "forEach_point m g ps [] = Inr (grouped m g ps)" by simp
  then show ?thesis by (simp add: createGridClusters_def map_values_def grouped_def comp_def)
qed

lemma first_appearance_map_inj:
  "inj_on f (set xs) \<Longrightarrow> first_appearance (map f xs) = map f (first_appearance xs)"
proof (induction xs)
  case Nil
  then show ?case by simp
next
  case (Cons x xs)
  then have IH: "first_appearance (map f xs) = map f (first_appearance xs)" by simp
  have "filter (\<lambda>y. y \<noteq> f x) (map f (first_appearance xs))
      = map f (filter (\<lambda>y. f y \<noteq> f x) (first_appearance xs))"
    by (simp add: filter_map comp_def)
  also have "filter (\<lambda>y. f y \<noteq> f x) (first_appearance xs) = filter (\<lambda>y. y \<noteq> x) (first_appearance xs)"
  proof (rule filter_cong[OF refl])
    fix y assume "y \<in> set (first_appearance xs)"
    then have "y \<in> set (x # xs)" by (simp add: set_first_appearance)
    moreover have "x \<in> set (x # xs)" by simp
    ultimately show "(f y \<noteq> f x) = (y \<noteq> x)" using inj_onD[OF Cons.prems, of y x] by blast
  qed
  finally show ?case using IH by simp
qed

lemma gridKey_cellKey: "gridKey m g p = keyString (fst (cellKey m g p)) (snd (cellKey m g p))"
  by (simp add: gridKey_def cellKey_def)

lemma createGridClusters_cells:
  "createGridClusters m ps g = Inr (map (cell_group m g ps) (first_appearance (map (cellKey m g) ps)))"
proof -
  let ?phi = "\<lambda>k. keyString (fst k) (snd k)"
  have inj: "inj_on ?phi (set (map (cellKey m g) ps))"
  proof (rule inj_onI)
    fix a b assume "a \<in> set (map (cellKey m g) ps)" "b \<in> set (map (cellKey m g) ps)" and e: "?phi a = ?phi b"
    then obtain p q where "a = cellKey m g p" "b = cellKey m g q" by auto
    with e show "a = b" using gridKey_eq_iff[of m g p q] by (simp add: gridKey_cellKey)
  qed
  have keys: "map (gridKey m g) ps = map ?phi (map (cellKey m g) ps)"
    by (simp add: gridKey_cellKey)
  have fa: "first_appearance (map (gridKey m g) ps) = map ?phi (first_appearance (map (cellKey m g) ps))"
    unfolding keys by (rule first_appearance_map_inj[OF inj])
  have "map (cell_cluster m g ps) (map ?phi (first_appearance (map (cellKey m g) ps)))
      = map (cell_group m g ps) (first_appearance (map (cellKey m g) ps))"
    unfolding map_map
  proof (rule map_cong[OF refl])
    fix k assume "k \<in> set (first_appearance (map (cellKey m g) ps))"
    then obtain q where q: "q \<in> set ps" "k = cellKey m g q" by (auto simp: set_first_appearance)
    have mem: "cell_members m g ps (?phi k) = filter (\<lambda>p. cellKey m g p = k) ps"
      unfolding cell_members_def using gridKey_eq_iff[of m g _ q] q(2)
      by (simp add: gridKey_cellKey)
    have "filter (\<lambda>p. cellKey m g p = k) ps \<noteq> []" using q by (auto simp: filter_empty_conv)
    then have "hd (filter (\<lambda>p. cellKey m g p = k) ps) \<in> set (filter (\<lambda>p. cellKey m g p = k) ps)"
      by (rule hd_in_set)
    then have "cellKey m g (hd (filter (\<lambda>p. cellKey m g p = k) ps)) = k" by simp
    then have "fst (cellKey m g (hd (filter (\<lambda>p. cellKey m g p = k) ps))) = fst k"
      and "snd (cellKey m g (hd (filter (\<lambda>p. cellKey m g p = k) ps))) = snd k"
      by simp_all
    then have "cellX m g (hd (filter (\<lambda>p. cellKey m g p = k) ps)) = fst k"
      and "cellY m g (hd (filter (\<lambda>p. cellKey m g p = k) ps)) = snd k"
      unfolding cellKey_def fst_conv snd_conv .
    then show "(cell_cluster m g ps \<circ> ?phi) k = cell_group m g ps k"
      by (simp add: cell_cluster_def cell_group_def mem)
  qed
  then show ?thesis by (simp only: createGridClusters_eq fa)
qed

lemma mset_concat_groups:
  "distinct ks \<Longrightarrow> f ` set xs \<subseteq> set ks \<Longrightarrow>
   mset (concat (map (\<lambda>k. filter (\<lambda>x. f x = k) xs) ks)) = mset xs"
proof (induction ks arbitrary: xs)
  case Nil
  then show ?case by simp
next
  case (Cons k ks)
  let ?rest = "filter (\<lambda>x. f x \<noteq> k) xs"
  have sub: "f ` set ?rest \<subseteq> set ks" using Cons.prems(2) by auto
  have "map (\<lambda>k'. filter (\<lambda>x. f x = k') xs) ks = map (\<lambda>k'. filter (\<lambda>x. f x = k') ?rest) ks"
  proof (rule map_cong[OF refl])
    fix k' assume "k' \<in> set ks"
    then have "k' \<noteq> k" using Cons.prems(1) by auto
    then show "filter (\<lambda>x. f x = k') xs = filter (\<lambda>x. f x = k') ?rest"
      by (auto simp: filter_filter intro: filter_cong)
  qed
  then have "concat (map (\<lambda>k'. filter (\<lambda>x. f x = k') xs) ks)
      = concat (map (\<lambda>k'. filter (\<lambda>x. f x = k') ?rest) ks)"
    by (rule arg_cong)
  moreover have "distinct ks" using Cons.prems(1) by simp
  from Cons.IH[OF this sub]
  have "mset (concat (map (\<lambda>k'. filter (\<lambda>x. f x = k') ?rest) ks)) = mset ?rest" .
  ultimately have "mset (concat (map (\<lambda>k'. filter (\<lambda>x. f x = k') xs) (k # ks)))
      = mset (filter (\<lambda>x. f x = k) xs) + mset (filter (\<lambda>x. \<not> f x = k) xs)"
    by (simp only: list.map concat.simps mset_append)
  then show ?case by (simp only: mset_filter multiset_partition[symmetric])
qed

lemma distinct_unique_index:
  "distinct ks \<Longrightarrow> k \<in> set ks \<Longrightarrow> \<exists>!i. i < length ks \<and> ks ! i = k"
  by (metis in_set_conv_nth nth_eq_iff_index_eq)

lemma clusters_partition:
  "\<exists>cs. createGridClusters m ps g = Inr cs \<and>
        mset (concat (map points cs)) = mset ps \<and>
        (\<forall>i j. i < length cs \<and> j < length cs \<and> i \<noteq> j \<longrightarrow> set (points (cs ! i)) \<inter> set (points (cs ! j)) = {}) \<and>
        (\<forall>p \<in> set ps. \<exists>!i. i < length cs \<and> p \<in> set (points (cs ! i)))"
proof -
  let ?ks = "first_appearance (map (cellKey m g) ps)"
  let ?cs = "map (cell_group m g ps) ?ks"
  have d: "distinct ?ks" by (rule distinct_first_appearance)
  have pts: "map points ?cs = map (\<lambda>k. filter (\<lambda>p. cellKey m g p = k) ps) ?ks"
    by (simp add: cell_group_def comp_def)
  have 1: "mset (concat (map points ?cs)) = mset ps"
    unfolding pts by (rule mset_concat_groups[OF d]) (simp add: set_first_appearance)
  have nth: "set (points (?cs ! i)) = {p \<in> set ps. cellKey m g p = ?ks ! i}" if "i < length ?cs" for i
    using that by (simp add: cell_group_def)
  have 2: "set (points (?cs ! i)) \<inter> set (points (?cs ! j)) = {}"
    if "i < length ?cs \<and> j < length ?cs \<and> i \<noteq> j" for i j
  proof -
    have "?ks ! i \<noteq> ?ks ! j" using that d by (simp add: nth_eq_iff_index_eq)
    moreover have "set (points (?cs ! i)) = {p \<in> set ps. cellKey m g p = ?ks ! i}"
      and "set (points (?cs ! j)) = {p \<in> set ps. cellKey m g p = ?ks ! j}"
      using that by (simp_all only: nth)
    ultimately show ?thesis by (simp only: disjoint_iff mem_Collect_eq) metis
  qed
  have 3: "\<exists>!i. i < length ?cs \<and> p \<in> set (points (?cs ! i))" if "p \<in> set ps" for p
  proof -
    have "cellKey m g p \<in> set ?ks" using that by (simp add: set_first_appearance)
    from distinct_unique_index[OF d this]
    have "\<exists>!i. i < length ?ks \<and> ?ks ! i = cellKey m g p" .
    moreover have "(i < length ?cs \<and> p \<in> set (points (?cs ! i))) = (i < length ?ks \<and> ?ks ! i = cellKey m g p)" for i
      using that nth[of i] by auto
    ultimately show ?thesis by simp
  qed
  show ?thesis using 1 2 3 createGridClusters_cells[of m ps g] by blast
qed

lemma clusters_same_cell:
  "\<exists>cs. createGridClusters m ps g = Inr cs \<and>
     (\<forall>p \<in> set ps. \<forall>q \<in> set ps.
        (\<exists>c \<in> set cs. p \<in> set (points c) \<and> q \<in> set (points c)) \<longleftrightarrow> cellKey m g p = cellKey m g q) \<and>
     (\<forall>c \<in> set cs. \<forall>p \<in> set (points c). (gridX c, gridY c) = cellKey m g p)"
proof -
  let ?ks = "first_appearance (map (cellKey m g) ps)"
  let ?cs = "map (cell_group m g ps) ?ks"
  have a: "(\<exists>c \<in> set ?cs. p \<in> set (points c) \<and> q \<in> set (points c)) \<longleftrightarrow> cellKey m g p = cellKey m g q"
    if "p \<in> set ps" "q \<in> set ps" for p q
    using that by (auto simp: cell_group_def set_first_appearance)
  have b: "(gridX c, gridY c) = cellKey m g p" if "c \<in> set ?cs" "p \<in> set (points c)" for c p
    using that by (auto simp: cell_group_def)
  show ?thesis using a b createGridClusters_cells[of m ps g] by blast
qed

lemma clusters_order:
  "\<exists>cs. createGridClusters m ps g = Inr cs \<and>
     map (\<lambda>c. (gridX c, gridY c)) cs = first_appearance (map (cellKey m g) ps) \<and>
     (\<forall>c \<in> set cs. points c = filter (\<lambda>p. cellKey m g p = (gridX c, gridY c)) ps)"
proof -
  let ?ks = "first_appearance (map (cellKey m g) ps)"
  let ?cs = "map (cell_group m g ps) ?ks"
  have a: "map (\<lambda>c. (gridX c, gridY c)) ?cs = ?ks"
    by (simp add: cell_group_def comp_def)
  have b: "points c = filter (\<lambda>p. cellKey m g p = (gridX c, gridY c)) ps" if "c \<in> set ?cs" for c
    using that by (auto simp: cell_group_def)
  show ?thesis using a b createGridClusters_cells[of m ps g] by blast
qed

section \<open>What the nearby query computes\<close>

text \<open>
  A point that passes the filter has a finite distance, and a distance is a double. On
  doubles the comparator is positive exactly when the first is the larger, so on the
  filtered points the sort is the stable insertion sort by the distance.
\<close>

lemma sort_insert_insort_key:
  assumes "\<forall>x \<in> set (a # bs). \<exists>r. key x = Fin r \<and> rnd m r = Fin r"
  shows "sort_insert (\<lambda>a b. js_sub m (key a) (key b)) a bs
       = insort_key (\<lambda>x. js_real (key x)) a bs"
  using assms
proof (induction bs)
  case Nil
  then show ?case by simp
next
  case (Cons b bs)
  from Cons.prems obtain ra rb where r: "key a = Fin ra" "rnd m ra = Fin ra"
    "key b = Fin rb" "rnd m rb = Fin rb" by auto
  have IH: "sort_insert (\<lambda>a b. js_sub m (key a) (key b)) a bs
          = insort_key (\<lambda>x. js_real (key x)) a bs"
    using Cons by simp
  have "js_sub m (key a) (key b) = rnd m (ra - rb)" by (simp add: r js_sub_def)
  then have "js_lt (Fin 0) (js_sub m (key a) (key b)) \<longleftrightarrow> \<not> ra \<le> rb"
    using rnd_diff_pos_iff[OF r(2) r(4)] by (simp add: not_le)
  then show ?case using r IH by simp
qed

lemma Array_sort_sort_key:
  assumes "\<forall>x \<in> set xs. \<exists>r. key x = Fin r \<and> rnd m r = Fin r"
  shows "Array_sort (\<lambda>a b. js_sub m (key a) (key b)) xs = sort_key (\<lambda>x. js_real (key x)) xs"
  using assms
proof (induction xs)
  case Nil
  then show ?case by (simp add: Array_sort_def)
next
  case (Cons x xs)
  then have IH: "Array_sort (\<lambda>a b. js_sub m (key a) (key b)) xs
               = sort_key (\<lambda>x. js_real (key x)) xs"
    by simp
  have "\<forall>y \<in> set (x # sort_key (\<lambda>x. js_real (key x)) xs). \<exists>r. key y = Fin r \<and> rnd m r = Fin r"
    using Cons.prems by simp
  from sort_insert_insort_key[OF this] IH show ?case
    by (simp add: Array_sort_def sort_key_def)
qed

lemma js_le_not_NaN: "js_le a r \<Longrightarrow> a \<noteq> NaN"
  by (cases a) auto

lemma distanceFrom_range:
  "distanceFrom m c p = NaN \<or>
   (\<exists>d. 0 \<le> d \<and> rnd m d = Fin d \<and> distanceFrom m c p = Fin d)"
  unfolding distanceFrom_def by (rule calculateDistance_range)

lemma within_finite:
  "js_le (distanceFrom m c p) r \<Longrightarrow> \<exists>d. distanceFrom m c p = Fin d \<and> rnd m d = Fin d"
  using distanceFrom_range[of m c p] js_le_not_NaN by blast

lemma findNearbyPoints_eq:
  "findNearbyPoints m ps c r =
     Inr (sort_key (\<lambda>p. js_real (distanceFrom m c p)) (filter (\<lambda>p. js_le (distanceFrom m c p) r) ps))"
proof -
  have "\<forall>x \<in> set (filter (\<lambda>p. js_le (distanceFrom m c p) r) ps).
          \<exists>d. distanceFrom m c x = Fin d \<and> rnd m d = Fin d"
    by (auto dest: within_finite)
  from Array_sort_sort_key[of _ "distanceFrom m c", OF this]
  show ?thesis by (simp add: findNearbyPoints_def Let_def distanceFrom_def[symmetric])
qed

lemma negative_radius_none: "js_lt r (Fin 0) \<Longrightarrow> \<not> js_le (distanceFrom m c p) r"
  using distanceFrom_range[of m c p] by (cases r) auto

lemma js_real_eq_iff: "a = Fin x \<Longrightarrow> (a = Fin k) = (js_real a = k)"
  by simp

lemma nearby_props:
  "\<exists>res. findNearbyPoints m ps c r = Inr res \<and>
     (\<forall>p. p \<in> set res \<longleftrightarrow> p \<in> set ps \<and> js_le (distanceFrom m c p) r) \<and>
     mset res = mset (filter (\<lambda>p. js_le (distanceFrom m c p) r) ps) \<and>
     sorted_wrt (\<lambda>p q. js_le (distanceFrom m c p) (distanceFrom m c q)) res \<and>
     (\<forall>d. filter (\<lambda>p. distanceFrom m c p = d) res =
          filter (\<lambda>p. distanceFrom m c p = d) (filter (\<lambda>p. js_le (distanceFrom m c p) r) ps))"
proof -
  let ?f = "\<lambda>p. js_real (distanceFrom m c p)"
  let ?near = "filter (\<lambda>p. js_le (distanceFrom m c p) r) ps"
  let ?res = "sort_key ?f ?near"
  have fin: "\<exists>x. distanceFrom m c p = Fin x" if "p \<in> set ?near" for p
    using that within_finite[of m c p r] by auto
  have set_res: "set ?res = set ?near" by (rule set_sort)
  have 1: "p \<in> set ?res \<longleftrightarrow> p \<in> set ps \<and> js_le (distanceFrom m c p) r" for p by simp
  have 2: "mset ?res = mset ?near" by (rule mset_sort)
  have "sorted_wrt (\<lambda>p q. ?f p \<le> ?f q) ?res"
    using sorted_sort_key[of ?f ?near] by (simp only: sorted_map)
  then have 3: "sorted_wrt (\<lambda>p q. js_le (distanceFrom m c p) (distanceFrom m c q)) ?res"
  proof (rule sorted_wrt_mono_rel[rotated])
    fix p q assume pq: "p \<in> set ?res" "q \<in> set ?res" and le: "?f p \<le> ?f q"
    from pq obtain x y where xy: "distanceFrom m c p = Fin x" "distanceFrom m c q = Fin y"
      unfolding set_res using fin by blast
    from le show "js_le (distanceFrom m c p) (distanceFrom m c q)"
      unfolding xy by simp
  qed
  have cong: "(distanceFrom m c p = Fin k) = (?f p = k)" if "p \<in> set ?near" for p k
    using fin[OF that] js_real_eq_iff by blast
  have none: "distanceFrom m c p \<noteq> d" if "p \<in> set ?near" "\<And>k. d \<noteq> Fin k" for p d
    using fin[OF that(1)] that(2) by metis
  have 4: "filter (\<lambda>p. distanceFrom m c p = d) ?res = filter (\<lambda>p. distanceFrom m c p = d) ?near" for d
  proof (cases "\<exists>k. d = Fin k")
    case True
    then obtain k where k: "d = Fin k" ..
    have "filter (\<lambda>p. distanceFrom m c p = d) ?res = filter (\<lambda>p. ?f p = k) ?res"
      unfolding k by (rule filter_cong[OF refl]) (simp only: set_res cong)
    also have "\<dots> = filter (\<lambda>p. ?f p = k) ?near" by (rule sort_key_stable)
    also have "\<dots> = filter (\<lambda>p. distanceFrom m c p = d) ?near"
      unfolding k by (rule filter_cong[OF refl]) (simp only: cong)
    finally show ?thesis .
  next
    case False
    then have nk: "\<And>k. d \<noteq> Fin k" by blast
    have "filter (\<lambda>p. distanceFrom m c p = d) ?near = []"
      unfolding filter_empty_conv using none[OF _ nk] by blast
    moreover have "filter (\<lambda>p. distanceFrom m c p = d) ?res = []"
      unfolding filter_empty_conv set_res using none[OF _ nk] by blast
    ultimately show ?thesis by (simp only:)
  qed
  show ?thesis unfolding findNearbyPoints_eq using 1 2 3 4 by blast
qed

lemma nearby_negative: "js_lt r (Fin 0) \<Longrightarrow> findNearbyPoints m ps c r = Inr []"
  unfolding findNearbyPoints_eq using negative_radius_none[of r m c] by simp

section \<open>Worked examples\<close>

text \<open>
  The functions evaluated on sample data, on the exact machine where a value depends on
  the rounding. With the 0.5 degree grid of the source, Melbourne and St Kilda share the
  cell \<open>(-76, 289)\<close> and London has the cell \<open>(103, -1)\<close>; the division by 0.5 is exact
  in doubles as well. With cell size 0 the cells are infinities, or \<open>NaN\<close> for a
  coordinate that is zero, on every machine.
\<close>

lemma floor_minus_one_real: "\<lfloor>- 1 :: real\<rfloor> = - 1"
  by (simp add: floor_eq_iff)

lemma sample_cells:
  "Math_floor (js_div exact (lat melbourne) (Fin (1 / 2))) = Fin (- 76)"
  "Math_floor (js_div exact (lng melbourne) (Fin (1 / 2))) = Fin 289"
  "Math_floor (js_div exact (lat st_kilda) (Fin (1 / 2))) = Fin (- 76)"
  "Math_floor (js_div exact (lng st_kilda) (Fin (1 / 2))) = Fin 289"
  "Math_floor (js_div exact (lat london) (Fin (1 / 2))) = Fin 103"
  "Math_floor (js_div exact (lng london) (Fin (1 / 2))) = Fin (- 1)"
  by (simp_all add: melbourne_def london_def st_kilda_def rnd_exact_small)

lemma sample_keys:
  "keyString (Fin (- 76)) (Fin 289) = ''-76,289''"
  "keyString (Fin 103) (Fin (- 1)) = ''103,-1''"
  by (simp_all add: keyString_def string_of_int_def string_of_nat.simps digit_char_def
      floor_minus_one_real)

lemma createGridClusters_sample:
  "createGridClusters exact [melbourne, london, st_kilda] (Fin (1 / 2)) =
   Inr [\<lparr>points = [melbourne, st_kilda], gridX = Fin (- 76), gridY = Fin 289\<rparr>,
        \<lparr>points = [london], gridX = Fin 103, gridY = Fin (- 1)\<rparr>]"
  by (simp add: createGridClusters_def cluster_step_def map_has_def map_get_def map_values_def
      Let_def sample_cells sample_keys)


text \<open>
  On the exact machine a point on the opposite side of the Earth is at distance
  \<open>6371 \<pi>\<close> km. With exactly that radius it is returned, last; the two points at
  distance 0 keep their input order.
\<close>

lemma rnd_exact_pi: "\<bar>k\<bar> \<le> 10 ^ 6 \<Longrightarrow> rnd exact (k * pi) = Fin (k * pi)"
proof -
  assume k: "\<bar>k\<bar> \<le> 10 ^ 6"
  have "\<bar>k * pi\<bar> \<le> 10 ^ 6 * 4"
    unfolding abs_mult using k pi_less_4 pi_gt_zero by (intro mult_mono) simp_all
  then have "\<bar>k * pi\<bar> \<le> 10 ^ 9" by simp
  then show ?thesis by (rule rnd_exact_small)
qed

lemma antipode_distance: "distanceFrom exact equator_center antipode = Fin (6371 * pi)"
proof -
  have 1: "rnd exact (180 * pi) = Fin (180 * pi)" by (rule rnd_exact_pi) simp
  have 2: "rnd exact pi = Fin pi" using rnd_exact_pi[of 1] by simp
  have 3: "rnd exact (pi / 2) = Fin (pi / 2)" using rnd_exact_pi[of "1 / 2"] by simp
  have 4: "rnd exact (6371 * pi) = Fin (6371 * pi)" by (rule rnd_exact_pi) simp
  show ?thesis
    by (simp add: distanceFrom_def equator_center_def antipode_def calculateDistance_def Let_def
      Math_PI_def js_sub_def exact_functions real_atan2_def rnd_exact_small 1 2 3 4)
qed

lemma equator_distance:
  "distanceFrom m equator_center equator_a = Fin 0"
  "distanceFrom m equator_center equator_b = Fin 0"
proof -
  have "js_mul m (Fin 0) (Math_PI m) = Fin 0" by (simp add: Math_PI_def rnd_zero)
  from calculateDistance_same[OF this, of 0]
  show "distanceFrom m equator_center equator_a = Fin 0"
    "distanceFrom m equator_center equator_b = Fin 0"
    by (simp_all add: distanceFrom_def equator_center_def equator_a_def equator_b_def)
qed

lemma findNearbyPoints_boundary_sample:
  "findNearbyPoints exact [antipode, equator_a, equator_b] equator_center (Fin (6371 * pi)) =
     Inr [equator_a, equator_b, antipode]"
proof -
  have "rnd exact (6371 * pi) = Fin (6371 * pi)" by (rule rnd_exact_pi) simp
  then show ?thesis
    by (simp add: findNearbyPoints_def distanceFrom_def[symmetric] Array_sort_def Let_def
      antipode_distance equator_distance js_sub_def rnd_zero)
qed

lemma findNearbyPoints_inside_sample:
  "findNearbyPoints exact [antipode, equator_a, equator_b] equator_center (Fin 10000) =
     Inr [equator_a, equator_b]"
proof -
  have "\<not> 6371 * pi \<le> 10000" using pi_ge_two by simp
  then show ?thesis
    by (simp add: findNearbyPoints_def distanceFrom_def[symmetric] Array_sort_def Let_def
      antipode_distance equator_distance js_sub_def rnd_zero)
qed

text \<open>
  A latitude of \<open>10\<^sup>3\<^sup>0\<^sup>8\<close> is a finite number, but \<^verbatim>\<open>lat * Math.PI\<close> overflows: on every
  machine the distance is \<open>NaN\<close>, also from the point to itself.
\<close>

lemma huge_latitude_distance:
  "calculateDistance m (Fin (10 ^ 308)) lon1 lat2 lon2 = NaN"
  "calculateDistance m lat1 lon1 (Fin (10 ^ 308)) lon2 = NaN"
  using calculateDistance_overflow_first[OF huge_latitude_overflows]
    calculateDistance_overflow_second[OF huge_latitude_overflows]
  by simp_all

section \<open>The properties of the specification\<close>

text \<open>
  C1. For every point collection, centre and radius, the nearby query returns exactly the
  input points whose distance from the centre is \<open>\<le> radius\<close> (each as often as it stands
  in the input; the boundary is inclusive, since the test is \<^verbatim>\<open>distance <= radius\<close>), in
  non-decreasing order of distance, and the points of any one distance stand in their
  input order.
\<close>

theorem findNearbyPoints_within_sorted_stable:
  "\<exists>res. findNearbyPoints m ps c r = Inr res \<and>
     (\<forall>p. p \<in> set res \<longleftrightarrow> p \<in> set ps \<and> js_le (distanceFrom m c p) r) \<and>
     mset res = mset (filter (\<lambda>p. js_le (distanceFrom m c p) r) ps) \<and>
     sorted_wrt (\<lambda>p q. js_le (distanceFrom m c p) (distanceFrom m c q)) res \<and>
     (\<forall>d. filter (\<lambda>p. distanceFrom m c p = d) res =
          filter (\<lambda>p. distanceFrom m c p = d) (filter (\<lambda>p. js_le (distanceFrom m c p) r) ps))"
  by (rule nearby_props)

text \<open>
  C2. For every point collection and every cell size \<open>s > 0\<close>, the clusters are a total
  partition of the input: the members of all clusters together are the input as a
  multiset, and two different clusters share no point.
\<close>

theorem createGridClusters_partition:
  assumes "js_lt (Fin 0) s"
  shows "\<exists>cs. createGridClusters m ps s = Inr cs \<and>
           mset (concat (map points cs)) = mset ps \<and>
           (\<forall>i j. i < length cs \<and> j < length cs \<and> i \<noteq> j \<longrightarrow>
                  set (points (cs ! i)) \<inter> set (points (cs ! j)) = {})"
  using clusters_partition[of m ps s] by blast

theorem createGridClusters_partition_witness:
  "js_lt (Fin 0) (Fin (1 / 2)) \<and>
   (\<exists>cs. createGridClusters exact [melbourne, london, st_kilda] (Fin (1 / 2)) = Inr cs \<and>
      mset (concat (map points cs)) = mset [melbourne, london, st_kilda] \<and>
      length cs = 2 \<and> set (points (cs ! 0)) \<inter> set (points (cs ! 1)) = {})"
proof -
  have h: "js_lt (Fin 0) (Fin (1 / 2))" by simp
  from createGridClusters_partition[OF h, of exact "[melbourne, london, st_kilda]"]
  obtain cs where cs: "createGridClusters exact [melbourne, london, st_kilda] (Fin (1 / 2)) = Inr cs"
    "mset (concat (map points cs)) = mset [melbourne, london, st_kilda]"
    "\<forall>i j. i < length cs \<and> j < length cs \<and> i \<noteq> j \<longrightarrow>
        set (points (cs ! i)) \<inter> set (points (cs ! j)) = {}"
    by blast
  from cs(1) have len: "length cs = 2" by (auto simp: createGridClusters_sample)
  then have "set (points (cs ! 0)) \<inter> set (points (cs ! 1)) = {}" using cs(3) by simp
  with h cs(1,2) len show ?thesis by blast
qed

text \<open>
  C3. For every point collection and every cell size \<open>s > 0\<close>, two input points are in
  the same cluster exactly when their cell keys
  \<open>(floor (lat / s), floor (lng / s))\<close> are equal, and the \<open>gridX\<close>, \<open>gridY\<close> stored in
  a cluster are the cell key of each of its members.
\<close>

theorem createGridClusters_same_cell:
  assumes "js_lt (Fin 0) s"
  shows "\<exists>cs. createGridClusters m ps s = Inr cs \<and>
     (\<forall>p \<in> set ps. \<forall>q \<in> set ps.
        (\<exists>c \<in> set cs. p \<in> set (points c) \<and> q \<in> set (points c)) \<longleftrightarrow> cellKey m s p = cellKey m s q) \<and>
     (\<forall>c \<in> set cs. \<forall>p \<in> set (points c). (gridX c, gridY c) = cellKey m s p)"
  by (rule clusters_same_cell)

theorem createGridClusters_same_cell_witness:
  "js_lt (Fin 0) (Fin (1 / 2)) \<and>
   (\<exists>cs. createGridClusters exact [melbourne, london, st_kilda] (Fin (1 / 2)) = Inr cs \<and>
      (\<exists>c \<in> set cs. melbourne \<in> set (points c) \<and> st_kilda \<in> set (points c)) \<and>
      \<not> (\<exists>c \<in> set cs. melbourne \<in> set (points c) \<and> london \<in> set (points c)) \<and>
      cellKey exact (Fin (1 / 2)) melbourne = (Fin (- 76), Fin 289) \<and>
      cellKey exact (Fin (1 / 2)) st_kilda = (Fin (- 76), Fin 289) \<and>
      cellKey exact (Fin (1 / 2)) london = (Fin 103, Fin (- 1)))"
proof -
  have h: "js_lt (Fin 0) (Fin (1 / 2))" by simp
  have k: "cellKey exact (Fin (1 / 2)) melbourne = (Fin (- 76), Fin 289)"
    "cellKey exact (Fin (1 / 2)) st_kilda = (Fin (- 76), Fin 289)"
    "cellKey exact (Fin (1 / 2)) london = (Fin 103, Fin (- 1))"
    by (simp_all add: cellKey_def cellX_def cellY_def sample_cells)
  from createGridClusters_same_cell[OF h, of exact "[melbourne, london, st_kilda]"]
  obtain cs where cs: "createGridClusters exact [melbourne, london, st_kilda] (Fin (1 / 2)) = Inr cs"
    "\<forall>p \<in> set [melbourne, london, st_kilda]. \<forall>q \<in> set [melbourne, london, st_kilda].
        (\<exists>c \<in> set cs. p \<in> set (points c) \<and> q \<in> set (points c))
          \<longleftrightarrow> cellKey exact (Fin (1 / 2)) p = cellKey exact (Fin (1 / 2)) q"
    by blast
  from cs(2) have "(\<exists>c \<in> set cs. melbourne \<in> set (points c) \<and> st_kilda \<in> set (points c))
      \<longleftrightarrow> cellKey exact (Fin (1 / 2)) melbourne = cellKey exact (Fin (1 / 2)) st_kilda"
    by simp
  then have a: "\<exists>c \<in> set cs. melbourne \<in> set (points c) \<and> st_kilda \<in> set (points c)"
    by (simp only: k)
  from cs(2) have "(\<exists>c \<in> set cs. melbourne \<in> set (points c) \<and> london \<in> set (points c))
      \<longleftrightarrow> cellKey exact (Fin (1 / 2)) melbourne = cellKey exact (Fin (1 / 2)) london"
    by simp
  then have b: "\<not> (\<exists>c \<in> set cs. melbourne \<in> set (points c) \<and> london \<in> set (points c))"
    by (simp add: k)
  from h cs(1) a b k show ?thesis by blast
qed

text \<open>
  C4. For every point collection and every cell size \<open>s > 0\<close>, the output is determined
  by the input as follows: the clusters stand in the order in which their cell keys
  first appear in the input, and the members of a cluster are the input points of its
  cell in their input order.
\<close>

theorem createGridClusters_order:
  assumes "js_lt (Fin 0) s"
  shows "\<exists>cs. createGridClusters m ps s = Inr cs \<and>
     map (\<lambda>c. (gridX c, gridY c)) cs = first_appearance (map (cellKey m s) ps) \<and>
     (\<forall>c \<in> set cs. points c = filter (\<lambda>p. cellKey m s p = (gridX c, gridY c)) ps)"
  by (rule clusters_order)

theorem createGridClusters_order_witness:
  "js_lt (Fin 0) (Fin (1 / 2)) \<and>
   (\<exists>cs. createGridClusters exact [melbourne, london, st_kilda] (Fin (1 / 2)) = Inr cs \<and>
      map (\<lambda>c. (gridX c, gridY c)) cs
        = first_appearance (map (cellKey exact (Fin (1 / 2))) [melbourne, london, st_kilda]) \<and>
      map (\<lambda>c. (gridX c, gridY c)) cs = [(Fin (- 76), Fin 289), (Fin 103, Fin (- 1))] \<and>
      map points cs = [[melbourne, st_kilda], [london]])"
proof -
  have h: "js_lt (Fin 0) (Fin (1 / 2))" by simp
  from createGridClusters_order[OF h, of exact "[melbourne, london, st_kilda]"]
  obtain cs where cs: "createGridClusters exact [melbourne, london, st_kilda] (Fin (1 / 2)) = Inr cs"
    and keys: "map (\<lambda>c. (gridX c, gridY c)) cs
       = first_appearance (map (cellKey exact (Fin (1 / 2))) [melbourne, london, st_kilda])"
    by blast
  from cs have cs_eq: "cs = [\<lparr>points = [melbourne, st_kilda], gridX = Fin (- 76), gridY = Fin 289\<rparr>,
        \<lparr>points = [london], gridX = Fin 103, gridY = Fin (- 1)\<rparr>]"
    by (simp only: createGridClusters_sample sum.inject)
  have a: "map (\<lambda>c. (gridX c, gridY c)) cs = [(Fin (- 76), Fin 289), (Fin 103, Fin (- 1))]"
    unfolding cs_eq by simp
  have b: "map points cs = [[melbourne, st_kilda], [london]]"
    unfolding cs_eq by simp
  show ?thesis
  proof (intro conjI exI[of _ cs])
    show "js_lt (Fin 0) (Fin (1 / 2))" by (rule h)
    show "createGridClusters exact [melbourne, london, st_kilda] (Fin (1 / 2)) = Inr cs" by (rule cs)
    show "map (\<lambda>c. (gridX c, gridY c)) cs
       = first_appearance (map (cellKey exact (Fin (1 / 2))) [melbourne, london, st_kilda])" by (rule keys)
    show "map (\<lambda>c. (gridX c, gridY c)) cs = [(Fin (- 76), Fin 289), (Fin 103, Fin (- 1))]" by (rule a)
    show "map points cs = [[melbourne, st_kilda], [london]]" by (rule b)
  qed
qed

text \<open>
  C5. The distance is symmetric: for all arguments, on every machine,
  \<open>calculateDistance lat1 lon1 lat2 lon2\<close> and \<open>calculateDistance lat2 lon2 lat1 lon1\<close>
  are the same value. Where that value is \<open>NaN\<close> it is \<open>NaN\<close> in both orders (a
  comparison of the two results with \<^verbatim>\<open>==\<close> is then false, as for any \<open>NaN\<close>).
\<close>

theorem calculateDistance_symmetric:
  "calculateDistance m lat1 lon1 lat2 lon2 = calculateDistance m lat2 lon2 lat1 lon1"
  by (rule calculateDistance_swap)

text \<open>
  C6, as the specification states it: \<^verbatim>\<open>distance(A, A) == 0\<close> for every coordinate \<open>A\<close>,
  and the result is non-negative for every pair. For \<open>A = (10\<^sup>3\<^sup>0\<^sup>8, 0)\<close> the product
  \<^verbatim>\<open>lat * Math.PI\<close> overflows and the distance from \<open>A\<close> to itself is \<open>NaN\<close>: it is not
  \<^verbatim>\<open>==\<close> to 0 and the test \<^verbatim>\<open>0 <= distance\<close> is false.
\<close>

theorem identity_counterexample:
  "calculateDistance exact (Fin (10 ^ 308)) (Fin 0) (Fin (10 ^ 308)) (Fin 0) = NaN \<and>
   \<not> js_eq (calculateDistance exact (Fin (10 ^ 308)) (Fin 0) (Fin (10 ^ 308)) (Fin 0)) (Fin 0) \<and>
   \<not> js_le (Fin 0) (calculateDistance exact (Fin (10 ^ 308)) (Fin 0) (Fin (10 ^ 308)) (Fin 0))"
  unfolding huge_latitude_distance js_eq_def by simp

text \<open>
  C6, amended: on every machine, the distance of a coordinate from itself is exactly
  zero when \<^verbatim>\<open>lat * Math.PI\<close> is finite, as it is for every latitude in \<open>[-90, 90]\<close>
  (\<open>latitude_in_range_finite\<close>); and for arguments of any kind the result is never
  negative: it is \<open>NaN\<close> or a number \<open>\<ge> 0\<close>.
\<close>

theorem calculateDistance_zero_never_negative:
  assumes "is_finite (js_mul m (Fin la) (Math_PI m))"
  shows "calculateDistance m (Fin la) (Fin lo) (Fin la) (Fin lo) = Fin 0 \<and>
         \<not> js_lt (calculateDistance m lat1 lon1 lat2 lon2) (Fin 0) \<and>
         (calculateDistance m lat1 lon1 lat2 lon2 = NaN \<or>
          js_le (Fin 0) (calculateDistance m lat1 lon1 lat2 lon2))"
proof -
  from assms obtain u where "js_mul m (Fin la) (Math_PI m) = Fin u"
    by (cases "js_mul m (Fin la) (Math_PI m)") simp_all
  then have "calculateDistance m (Fin la) (Fin lo) (Fin la) (Fin lo) = Fin 0"
    by (rule calculateDistance_same)
  moreover have "\<not> js_lt (calculateDistance m lat1 lon1 lat2 lon2) (Fin 0)"
    and "calculateDistance m lat1 lon1 lat2 lon2 = NaN \<or>
         js_le (Fin 0) (calculateDistance m lat1 lon1 lat2 lon2)"
    using calculateDistance_range[of m lat1 lon1 lat2 lon2] by auto
  ultimately show ?thesis by blast
qed

theorem calculateDistance_zero_never_negative_witness:
  "is_finite (js_mul exact (Fin (- 37.8136)) (Math_PI exact)) \<and>
   calculateDistance exact (Fin (- 37.8136)) (Fin 144.9631) (Fin (- 37.8136)) (Fin 144.9631) = Fin 0 \<and>
   \<not> js_lt (calculateDistance exact (Fin (- 37.8136)) (Fin 144.9631) (Fin 51.5074) (Fin (- 0.1278)))
           (Fin 0)"
proof -
  have "\<exists>u. js_mul exact (Fin (- 37.8136)) (Math_PI exact) = Fin u"
    by (rule latitude_in_range_finite) simp
  then have h: "is_finite (js_mul exact (Fin (- 37.8136)) (Math_PI exact))" by auto
  from calculateDistance_zero_never_negative[OF h, where lo = "144.9631"
      and ?lat1.0 = "Fin (- 37.8136)" and ?lon1.0 = "Fin 144.9631"
      and ?lat2.0 = "Fin 51.5074" and ?lon2.0 = "Fin (- 0.1278)"]
  show ?thesis using h by blast
qed

text \<open>
  C7, as the specification states it: the clusterer called with cell size 0 and the nearby
  query called with radius -5 fail with \<open>InvalidArgument\<close>. The code has no such check.
  On the Melbourne point, cell size 0 gives one cluster, whose cell is
  \<open>(-Infinity, Infinity)\<close>, and radius -5 gives the empty sequence.
\<close>

theorem invalid_argument_counterexample:
  "createGridClusters exact [melbourne] (Fin 0) =
     Inr [\<lparr>points = [melbourne], gridX = NegInf, gridY = PosInf\<rparr>] \<and>
   createGridClusters exact [melbourne] (Fin 0) \<noteq> Inl InvalidArgument \<and>
   findNearbyPoints exact [melbourne] melbourne_center (Fin (- 5)) = Inr [] \<and>
   findNearbyPoints exact [melbourne] melbourne_center (Fin (- 5)) \<noteq> Inl InvalidArgument"
proof -
  have 1: "createGridClusters exact [melbourne] (Fin 0) =
     Inr [\<lparr>points = [melbourne], gridX = NegInf, gridY = PosInf\<rparr>]"
    by (simp add: createGridClusters_def cluster_step_def map_has_def map_get_def map_values_def
      Let_def keyString_def melbourne_def)
  have 2: "findNearbyPoints exact [melbourne] melbourne_center (Fin (- 5)) = Inr []"
  proof -
    obtain u where "js_mul exact (Fin (- 37.8136)) (Math_PI exact) = Fin u"
      using latitude_in_range_finite[of "- 37.8136" exact] by auto
    from calculateDistance_same[OF this, of "144.9631"] show ?thesis
      by (simp add: findNearbyPoints_def Array_sort_def melbourne_def melbourne_center_def)
  qed
  show ?thesis unfolding 1 2 by simp
qed

text \<open>
  C7, amended: called with a non-positive cell size (such as 0) the clusterer returns a
  sequence of clusters, and called with a negative radius (such as -5) the nearby query
  returns a sequence of points; neither call fails.
\<close>

theorem nonpositive_arguments_return:
  assumes "js_le s (Fin 0)" and "js_lt r (Fin 0)"
  shows "(\<exists>cs. createGridClusters m ps s = Inr cs) \<and> (\<exists>res. findNearbyPoints m qs c r = Inr res)"
  by (simp add: createGridClusters_cells findNearbyPoints_eq)

theorem nonpositive_arguments_return_witness:
  "js_le (Fin 0) (Fin 0) \<and> js_lt (Fin (- 5)) (Fin 0) \<and>
   (\<exists>cs. createGridClusters exact [melbourne] (Fin 0) = Inr cs) \<and>
   (\<exists>res. findNearbyPoints exact [melbourne] melbourne_center (Fin (- 5)) = Inr res)"
proof -
  have h1: "js_le (Fin 0) (Fin 0)" and h2: "js_lt (Fin (- 5)) (Fin 0)" by simp_all
  from nonpositive_arguments_return[OF h1 h2, of exact "[melbourne]" "[melbourne]" melbourne_center]
  show ?thesis using h1 h2 by blast
qed

text \<open>
  C8. On the empty point collection both operations return the empty sequence, without
  error, whatever the cell size, the centre and the radius.
\<close>

theorem empty_input_empty_output:
  "createGridClusters m [] s = Inr [] \<and> findNearbyPoints m [] c r = Inr []"
  by (simp add: createGridClusters_def map_values_def findNearbyPoints_def Array_sort_def)

text \<open>
  C9. With a strictly negative radius the nearby query raises no error and returns the
  empty sequence, for every point collection and centre: a distance is \<open>NaN\<close> or a
  number \<open>\<ge> 0\<close>, so no point passes \<^verbatim>\<open>distance <= radius\<close>.
\<close>

theorem findNearbyPoints_negative_radius:
  assumes "js_lt r (Fin 0)"
  shows "findNearbyPoints m ps c r = Inr [] \<and>
         (\<forall>p. (distanceFrom m c p = NaN \<or> (\<exists>d. 0 \<le> d \<and> distanceFrom m c p = Fin d)) \<and>
              \<not> js_le (distanceFrom m c p) r)"
  using assms nearby_negative negative_radius_none distanceFrom_range by blast

theorem findNearbyPoints_negative_radius_witness:
  "js_lt (Fin (- 5)) (Fin 0) \<and>
   findNearbyPoints exact [melbourne, london, st_kilda] melbourne_center (Fin (- 5)) = Inr [] \<and>
   \<not> js_le (distanceFrom exact melbourne_center london) (Fin (- 5))"
proof -
  have h: "js_lt (Fin (- 5)) (Fin 0)" by simp
  from findNearbyPoints_negative_radius[OF h, of exact "[melbourne, london, st_kilda]" melbourne_center]
  show ?thesis using h by blast
qed



end
